theory Spec2Isabelle
  imports Main "HOL-Library.Word"
begin

section \<open>Outcomes\<close>

text \<open>
  A Go call either returns or panics.  A panic aborts the process, so no state is
  kept with it.  Ordinary \<^verbatim>\<open>error\<close> values are data: an error is its message, and
  \<^verbatim>\<open>nil\<close> is \<open>None\<close>.
\<close>

datatype 'a res = Ok 'a | Panic string

type_synonym err = "string option"

section \<open>Levels (logtool.go)\<close>

text \<open>\<^verbatim>\<open>type Level byte\<close> with the six constants declared by \<^verbatim>\<open>iota\<close>.\<close>

type_synonym Level = "8 word"

definition levelDefault :: Level where "levelDefault = 0"
definition LevelDebug :: Level where "LevelDebug = 1"
definition LevelInfo :: Level where "LevelInfo = 2"
definition LevelWarn :: Level where "LevelWarn = 3"
definition LevelError :: Level where "LevelError = 4"
definition LevelAction :: Level where "LevelAction = 5"

definition levelName :: "string list" where
  "levelName = [''output'', ''debug'', ''info'', ''warn'', ''error'', ''action'']"

text \<open>
  \<^verbatim>\<open>levelName[level]\<close>: indexing the slice outside its length panics.
\<close>

definition levelName_at :: "Level \<Rightarrow> string res" where
  "levelName_at lv =
     (if unat lv < length levelName then Ok (levelName ! unat lv)
      else Panic ''index out of range'')"

section \<open>Wall-clock time\<close>

text \<open>
  The code reads a \<^verbatim>\<open>time.Time\<close> only through \<^verbatim>\<open>Date()\<close>, \<^verbatim>\<open>Hour()\<close> and
  \<^verbatim>\<open>Format\<close>; a time is modelled by its calendar fields in its own location.
\<close>

record gotime =
  year :: int
  month :: nat
  day :: nat
  hour :: nat
  minute :: nat
  second :: nat
  nanosecond :: nat

definition Date :: "gotime \<Rightarrow> int \<times> nat \<times> nat" where
  "Date t = (year t, month t, day t)"

section \<open>Decimal formatting\<close>

definition digit_char :: "nat \<Rightarrow> char" where
  "digit_char d = ''0123456789'' ! d"

fun dec :: "nat \<Rightarrow> string" where
  "dec n = (if n < 10 then [digit_char n] else dec (n div 10) @ [digit_char (n mod 10)])"

declare dec.simps [simp del]

definition pad0 :: "nat \<Rightarrow> string \<Rightarrow> string" where
  "pad0 w ds = replicate (w - length ds) (CHR ''0'') @ ds"

text \<open>\<^verbatim>\<open>fmt\<close>'s \<^verbatim>\<open>%d\<close> and \<^verbatim>\<open>%0Nd\<close> (the sign counts towards the width).\<close>

definition sprintf_d :: "int \<Rightarrow> string" where
  "sprintf_d x = (if x < 0 then ''-'' @ dec (nat (- x)) else dec (nat x))"

definition sprintf_0d :: "nat \<Rightarrow> int \<Rightarrow> string" where
  "sprintf_0d w x =
     (if x < 0 then ''-'' @ pad0 (w - 1) (dec (nat (- x))) else pad0 w (dec (nat x)))"

text \<open>Package \<^verbatim>\<open>time\<close>'s \<^verbatim>\<open>appendInt\<close>: the width counts digits only.\<close>

definition appendInt :: "int \<Rightarrow> nat \<Rightarrow> string" where
  "appendInt x w = (if x < 0 then ''-'' @ pad0 w (dec (nat (- x))) else pad0 w (dec (nat x)))"

text \<open>
  The layout element \<^verbatim>\<open>.999\<close>: milliseconds with trailing zeros removed, and
  nothing at all (not even the dot) when they are all zero.
\<close>

definition format_frac3 :: "nat \<Rightarrow> string" where
  "format_frac3 ns =
     (let ds = take 3 (pad0 9 (dec ns));
          tr = rev (dropWhile (\<lambda>c. c = CHR ''0'') (rev ds))
      in if tr = [] then [] else CHR ''.'' # tr)"

text \<open>\<^verbatim>\<open>now.Format("2006-01-02 15:04:05.999 ")\<close>\<close>

definition format_ts :: "gotime \<Rightarrow> string" where
  "format_ts t =
     appendInt (year t) 4 @ ''-'' @ appendInt (int (month t)) 2 @ ''-'' @
     appendInt (int (day t)) 2 @ '' '' @ appendInt (int (hour t)) 2 @ '':'' @
     appendInt (int (minute t)) 2 @ '':'' @ appendInt (int (second t)) 2 @
     format_frac3 (nanosecond t) @ '' ''"

section \<open>Lexical paths (path/filepath on Unix)\<close>

definition HasSuffix :: "string \<Rightarrow> string \<Rightarrow> bool" where
  "HasSuffix s suf \<longleftrightarrow> length suf \<le> length s \<and> drop (length s - length suf) s = suf"

fun split_slash :: "string \<Rightarrow> string list" where
  "split_slash [] = [[]]"
| "split_slash (c # cs) =
     (if c = CHR ''/'' then [] # split_slash cs
      else (case split_slash cs of [] \<Rightarrow> [[c]] | x # xs \<Rightarrow> (c # x) # xs))"

fun join_slash :: "string list \<Rightarrow> string" where
  "join_slash [] = []"
| "join_slash [x] = x"
| "join_slash (x # y # ys) = x @ ''/'' @ join_slash (y # ys)"

text \<open>
  \<^verbatim>\<open>filepath.Clean\<close> by its documented rules: empty elements (from repeated
  slashes) and \<^verbatim>\<open>.\<close> are dropped; an inner \<^verbatim>\<open>..\<close> removes the element before it;
  a \<^verbatim>\<open>..\<close> at the start of a rooted path is dropped and at the start of a
  relative path is kept; the result ends in a slash only when it is the root, and
  the empty result is \<^verbatim>\<open>.\<close>.  \<open>out\<close> is the list of elements kept so far.
\<close>

definition clean_step :: "bool \<Rightarrow> string list \<Rightarrow> string \<Rightarrow> string list" where
  "clean_step rooted out c =
     (if c = [] \<or> c = ''.'' then out
      else if c = ''..'' then
        (if out \<noteq> [] \<and> last out \<noteq> ''..'' then butlast out
         else if rooted then out
         else out @ [''..''])
      else out @ [c])"

definition filepath_Clean :: "string \<Rightarrow> string" where
  "filepath_Clean p =
     (if p = [] then ''.''
      else let rooted = (hd p = CHR ''/'');
               out = foldl (clean_step rooted) [] (split_slash p);
               r = (if rooted then ''/'' else []) @ join_slash out
           in if r = [] then ''.'' else r)"

text \<open>\<^verbatim>\<open>filepath.Join\<close> of two elements: leading empty elements are skipped.\<close>

definition filepath_Join2 :: "string \<Rightarrow> string \<Rightarrow> string" where
  "filepath_Join2 a b =
     (if a \<noteq> [] then filepath_Clean (a @ ''/'' @ b)
      else if b \<noteq> [] then filepath_Clean b
      else [])"

section \<open>The operating system\<close>

text \<open>
  The world holds the \<^verbatim>\<open>os.File\<close> objects (a \<^verbatim>\<open>*os.File\<close> is an index into
  \<open>fobjs\<close>), the contents of the regular files, the system calls made so far,
  and what was printed with \<^verbatim>\<open>fmt.Println\<close>.  Whether a system call fails is not
  decided by the program: \<open>faults w k\<close> is the error of the system call made when
  \<open>k\<close> calls have been made before it, or \<open>None\<close> when that call succeeds.
\<close>

type_synonym fileptr = nat

datatype event =
    EMkdirAll string bool
  | EOpenFile string bool
  | EWrite fileptr string bool
  | EClose fileptr bool
  | ESync fileptr bool

record osfile =
  fname :: string
  closed :: bool

record world =
  fobjs :: "osfile list"
  disk :: "string \<Rightarrow> string option"
  trace :: "event list"
  console :: "string list"
  faults :: "nat \<Rightarrow> string option"

definition fault_now :: "world \<Rightarrow> err" where
  "fault_now w = faults w (length (trace w))"

definition log_event :: "event \<Rightarrow> world \<Rightarrow> world" where
  "log_event e w = w\<lparr>trace := trace w @ [e]\<rparr>"

definition Println :: "string \<Rightarrow> world \<Rightarrow> world" where
  "Println s w = w\<lparr>console := console w @ [s]\<rparr>"

definition is_open :: "world \<Rightarrow> fileptr \<Rightarrow> bool" where
  "is_open w f \<longleftrightarrow> f < length (fobjs w) \<and> \<not> closed (fobjs w ! f)"

definition os_MkdirAll :: "string \<Rightarrow> world \<Rightarrow> err \<times> world" where
  "os_MkdirAll path w =
     (case fault_now w of
        Some e \<Rightarrow> (Some e, log_event (EMkdirAll path False) w)
      | None \<Rightarrow> (None, log_event (EMkdirAll path True) w))"

text \<open>\<^verbatim>\<open>os.OpenFile(fname, O_RDWR|O_CREATE|O_APPEND, 0666)\<close>\<close>

definition os_OpenFile :: "string \<Rightarrow> world \<Rightarrow> (string + fileptr) \<times> world" where
  "os_OpenFile path w =
     (case fault_now w of
        Some e \<Rightarrow> (Inl e, log_event (EOpenFile path False) w)
      | None \<Rightarrow>
          (Inr (length (fobjs w)),
           log_event (EOpenFile path True)
             (w\<lparr>fobjs := fobjs w @ [\<lparr>fname = path, closed = False\<rparr>],
                disk := (case disk w path of None \<Rightarrow> (disk w)(path \<mapsto> []) | Some _ \<Rightarrow> disk w)\<rparr>)))"

text \<open>
  \<^verbatim>\<open>(*os.File).Write\<close> in append mode.  A closed file refuses without a system
  call; otherwise the call writes everything or fails having written nothing.
\<close>

definition file_Write :: "fileptr \<Rightarrow> string \<Rightarrow> world \<Rightarrow> nat \<times> err \<times> world" where
  "file_Write f p w =
     (if \<not> is_open w f then (0, Some ''file already closed'', w)
      else case fault_now w of
        Some e \<Rightarrow> (0, Some e, log_event (EWrite f p False) w)
      | None \<Rightarrow>
          (length p, None,
           log_event (EWrite f p True)
             (w\<lparr>disk := (disk w)(fname (fobjs w ! f) \<mapsto>
                  (case disk w (fname (fobjs w ! f)) of None \<Rightarrow> [] | Some old \<Rightarrow> old) @ p)\<rparr>)))"

text \<open>\<^verbatim>\<open>(*os.File).Close\<close>: the file is closed also when the call reports an error.\<close>

definition file_Close :: "fileptr \<Rightarrow> world \<Rightarrow> err \<times> world" where
  "file_Close f w =
     (if \<not> is_open w f then (Some ''file already closed'', w)
      else let w1 = w\<lparr>fobjs := (fobjs w)[f := (fobjs w ! f)\<lparr>closed := True\<rparr>]\<rparr>
           in case fault_now w of
                Some e \<Rightarrow> (Some e, log_event (EClose f False) w1)
              | None \<Rightarrow> (None, log_event (EClose f True) w1))"


section \<open>createFile (filelog.go)\<close>

definition logDir_of :: "string \<Rightarrow> string \<Rightarrow> gotime \<Rightarrow> string" where
  "logDir_of bp ln t =
     (let basePath1 = (if \<not> HasSuffix bp ''/'' then bp @ ''/'' else bp);
          basePath2 = basePath1 @ ''logs''
      in filepath_Join2 basePath2
           (ln @ ''/'' @ sprintf_0d 4 (year t) @ sprintf_0d 2 (int (month t)) @ ''/'' @
            sprintf_0d 2 (int (day t)) @ ''/''))"

definition logFile_of :: "string \<Rightarrow> 64 word \<Rightarrow> gotime \<Rightarrow> string" where
  "logFile_of name sl t =
     (if sint sl \<le> 0 then name @ ''-'' @ sprintf_0d 2 (int (hour t)) @ ''.log''
      else name @ ''-'' @ sprintf_0d 2 (int (hour t)) @ ''-'' @ sprintf_d (sint sl) @ ''.log'')"

definition createFile ::
  "string \<Rightarrow> string \<Rightarrow> Level \<Rightarrow> 64 word \<Rightarrow> gotime \<Rightarrow> world \<Rightarrow> ((string + fileptr) \<times> world) res" where
  "createFile bp ln lv sl t w =
     (let logDir = logDir_of bp ln t
      in case os_MkdirAll logDir w of
           (Some e, w1) \<Rightarrow> Ok (Inl (''logtool: cannot create log: '' @ e), w1)
         | (None, w1) \<Rightarrow>
             (case levelName_at lv of
                Panic m \<Rightarrow> Panic m
              | Ok name \<Rightarrow>
                  (let logFile = logFile_of name sl t;
                       fname = filepath_Join2 logDir logFile
                   in case os_OpenFile fname w1 of
                        (Inl e, w2) \<Rightarrow> Ok (Inl (''logtool: cannot open log file: '' @ e), w2)
                      | (Inr f, w2) \<Rightarrow> Ok (Inr f, w2))))"

section \<open>bufio.Writer\<close>

text \<open>
  A \<^verbatim>\<open>bufio.Writer\<close>: the file it wraps, the size of its buffer, the bytes it
  holds (\<^verbatim>\<open>buf[0:n]\<close>) and its sticky error.
\<close>

record bufio =
  wr :: fileptr
  bsize :: nat
  buf :: string
  werr :: err

definition bufferSize :: nat where "bufferSize = 256 * 1024"

definition MaxSize :: "64 word" where "MaxSize = 1024 * 1024 * 1800"

definition NewWriterSize :: "fileptr \<Rightarrow> nat \<Rightarrow> bufio" where
  "NewWriterSize f sz = \<lparr>wr = f, bsize = (if sz = 0 then 4096 else sz), buf = [], werr = None\<rparr>"

definition bufio_Flush :: "bufio \<Rightarrow> world \<Rightarrow> err \<times> bufio \<times> world" where
  "bufio_Flush b w =
     (if werr b \<noteq> None then (werr b, b, w)
      else if buf b = [] then (None, b, w)
      else case file_Write (wr b) (buf b) w of
        (n, e, w1) \<Rightarrow>
          (let e1 = (if n < length (buf b) \<and> e = None then Some ''short write'' else e)
           in if e1 \<noteq> None then (e1, b\<lparr>buf := drop n (buf b), werr := e1\<rparr>, w1)
              else (None, b\<lparr>buf := []\<rparr>, w1)))"

text \<open>
  The loop of \<^verbatim>\<open>(*bufio.Writer).Write\<close>: while the rest of \<open>p\<close> does not fit and
  no error is pending, a large write to an empty buffer goes straight to the file,
  otherwise the buffer is filled and flushed.  The result is the bytes accepted so
  far, the rest of \<open>p\<close>, the writer and the world.
\<close>

definition bufio_Write_step :: "bufio \<Rightarrow> string \<Rightarrow> world \<Rightarrow> nat \<times> bufio \<times> world" where
  "bufio_Write_step b p w =
     (if buf b = [] then
        (case file_Write (wr b) p w of (n, e, w1) \<Rightarrow> (n, b\<lparr>werr := e\<rparr>, w1))
      else
        (let n = min (bsize b - length (buf b)) (length p);
             b1 = b\<lparr>buf := buf b @ take n p\<rparr>
         in case bufio_Flush b1 w of (_, b2, w1) \<Rightarrow> (n, b2, w1)))"

function bufio_Write_loop :: "bufio \<Rightarrow> string \<Rightarrow> nat \<Rightarrow> world \<Rightarrow> nat \<times> string \<times> bufio \<times> world" where
  "bufio_Write_loop b p nn w =
     (if bsize b - length (buf b) < length p \<and> werr b = None then
        (case bufio_Write_step b p w of
           (n, b1, w1) \<Rightarrow> bufio_Write_loop b1 (drop n p) (nn + n) w1)
      else (nn, p, b, w))"
  by pat_completeness auto

lemma file_Write_n: "file_Write f p w = (n, None, w1) \<Longrightarrow> n = length p"
  by (auto simp: file_Write_def split: if_splits option.splits)

lemma bufio_Flush_post:
  "bufio_Flush b w = (e, b1, w1) \<Longrightarrow> werr b = None \<Longrightarrow> werr b1 \<noteq> None \<or> buf b1 = []"
  by (auto simp: bufio_Flush_def Let_def split: if_splits prod.splits)

lemma bufio_Write_step_decreases:
  assumes "bufio_Write_step b p w = (n, b1, w1)" "bsize b - length (buf b) < length p" "werr b = None"
  shows "(if werr b1 \<noteq> None then 0 else 2 * length (drop n p) + (if buf b1 = [] then 0 else 1) + 1)
           < 2 * length p + (if buf b = [] then 0 else 1) + 1"
proof (cases "buf b = []")
  case True
  with assms obtain e where fw: "file_Write (wr b) p w = (n, e, w1)" and b1: "b1 = b\<lparr>werr := e\<rparr>"
    by (auto simp: bufio_Write_step_def split: prod.splits)
  show ?thesis
  proof (cases e)
    case None
    with fw have "n = length p" by (simp add: file_Write_n)
    with None b1 True assms(2) show ?thesis by auto
  next
    case (Some m)
    with b1 show ?thesis by simp
  qed
next
  case False
  define k where "k = min (bsize b - length (buf b)) (length p)"
  from False assms(1) obtain e where
    fl: "bufio_Flush (b\<lparr>buf := buf b @ take k p\<rparr>) w = (e, b1, w1)" and n: "n = k"
    by (auto simp: bufio_Write_step_def Let_def k_def split: prod.splits)
  from bufio_Flush_post [OF fl] assms(3) have "werr b1 \<noteq> None \<or> buf b1 = []" by simp
  with False show ?thesis by auto
qed

termination bufio_Write_loop
proof (relation "measure (\<lambda>(b, p, nn, w).
    if werr b \<noteq> None then 0 else 2 * length p + (if buf b = [] then 0 else 1) + 1)", goal_cases)
  case 1
  show ?case by simp
next
  case (2 b p nn w x y xa ya)
  then have "bufio_Write_step b p w = (x, xa, ya)" by simp
  from bufio_Write_step_decreases [OF this] 2(1) show ?case by simp
qed

declare bufio_Write_loop.simps [simp del]

text \<open>\<^verbatim>\<open>(*bufio.Writer).Write\<close>: after the loop the rest is copied into the buffer.\<close>

definition bufio_Write :: "bufio \<Rightarrow> string \<Rightarrow> world \<Rightarrow> nat \<times> err \<times> bufio \<times> world" where
  "bufio_Write b p w =
     (case bufio_Write_loop b p 0 w of
        (nn, p1, b1, w1) \<Rightarrow>
          if werr b1 \<noteq> None then (nn, werr b1, b1, w1)
          else (nn + length p1, None, b1\<lparr>buf := buf b1 @ p1\<rparr>, w1))"

section \<open>The free list of buffers (filelog.go)\<close>

text \<open>
  A \<^verbatim>\<open>buffer\<close> is a \<^verbatim>\<open>bytes.Buffer\<close>, of which the code reads \<^verbatim>\<open>Len()\<close> and calls
  \<^verbatim>\<open>Reset()\<close>: \<open>b_bytes\<close> is its unread content, \<open>b_cap\<close> the capacity of its
  backing array.  The linked list through \<^verbatim>\<open>next\<close> is the list of its nodes,
  \<^verbatim>\<open>freeList\<close> first.
\<close>

record buffer =
  b_bytes :: string
  b_cap :: nat

definition buffer_Len :: "buffer \<Rightarrow> nat" where "buffer_Len b = length (b_bytes b)"
definition buffer_Cap :: "buffer \<Rightarrow> nat" where "buffer_Cap b = b_cap b"
definition buffer_Reset :: "buffer \<Rightarrow> buffer" where "buffer_Reset b = b\<lparr>b_bytes := []\<rparr>"
definition new_buffer :: buffer where "new_buffer = \<lparr>b_bytes = [], b_cap = 0\<rparr>"

section \<open>bufferWriter (filelog.go)\<close>

record bufferWriter =
  Writer :: "bufio option"
  basePath :: string
  logName :: string
  file_p :: "fileptr option"
  level :: Level
  stime :: gotime
  slot :: "64 word"
  nbytes :: "64 word"

text \<open>
  The methods promoted from the embedded \<^verbatim>\<open>*bufio.Writer\<close> dereference it: on a
  nil \<^verbatim>\<open>Writer\<close> they panic.
\<close>

definition bw_Flush :: "bufferWriter \<Rightarrow> world \<Rightarrow> (err \<times> bufferWriter \<times> world) res" where
  "bw_Flush sb w =
     (case Writer sb of
        None \<Rightarrow> Panic ''nil pointer dereference''
      | Some b \<Rightarrow> (case bufio_Flush b w of (e, b1, w1) \<Rightarrow> Ok (e, sb\<lparr>Writer := Some b1\<rparr>, w1)))"


definition bw_Write :: "bufferWriter \<Rightarrow> string \<Rightarrow> world \<Rightarrow> (nat \<times> err \<times> bufferWriter \<times> world) res" where
  "bw_Write sb p w =
     (case Writer sb of
        None \<Rightarrow> Panic ''nil pointer dereference''
      | Some b \<Rightarrow>
          (case bufio_Write b p w of
             (n, e, b1, w1) \<Rightarrow>
               Ok (n, e, sb\<lparr>Writer := Some b1, nbytes := nbytes sb + of_nat n\<rparr>, w1)))"

text \<open>The first statement of \<^verbatim>\<open>rotateFile\<close>: flush and close the file that is open.\<close>

definition close_current :: "bufferWriter \<Rightarrow> world \<Rightarrow> (bufferWriter \<times> world) res" where
  "close_current sb w =
     (case file_p sb of
        None \<Rightarrow> Ok (sb, w)
      | Some f \<Rightarrow>
          (case bw_Flush sb w of
             Panic m \<Rightarrow> Panic m
           | Ok (_, sb1, w1) \<Rightarrow> Ok (sb1, snd (file_Close f w1))))"

text \<open>
  \<^verbatim>\<open>rotateFile\<close>.  The errors of \<^verbatim>\<open>Flush\<close> and \<^verbatim>\<open>Close\<close> are not looked at.  When
  \<^verbatim>\<open>createFile\<close> fails the stream keeps its file (now closed), \<^verbatim>\<open>stime\<close>, \<^verbatim>\<open>slot\<close>
  and \<^verbatim>\<open>nbytes\<close>.  The second test of \<^verbatim>\<open>err\<close> (line 178) never holds, \<^verbatim>\<open>err\<close>
  being nil there.  \<open>slot\<close> is a Go \<^verbatim>\<open>int\<close> (64 bits, read with \<open>sint\<close>), \<open>nbytes\<close> a
  \<^verbatim>\<open>uint64\<close>.
\<close>

definition rotateFile ::
  "bufferWriter \<Rightarrow> gotime \<Rightarrow> 64 word \<Rightarrow> world \<Rightarrow> (err \<times> bufferWriter \<times> world) res" where
  "rotateFile sb now sl w =
     (case close_current sb w of
        Panic m \<Rightarrow> Panic m
      | Ok (sb1, w1) \<Rightarrow>
          (case createFile (basePath sb1) (logName sb1) (level sb1) sl now w1 of
             Panic m \<Rightarrow> Panic m
           | Ok (Inl e, w2) \<Rightarrow> Ok (Some e, sb1, w2)
           | Ok (Inr f, w2) \<Rightarrow>
               Ok (None,
                   sb1\<lparr>file_p := Some f, nbytes := 0, stime := now, slot := sl,
                       Writer := Some (NewWriterSize f bufferSize)\<rparr>,
                   w2)))"

definition checkRotate :: "bufferWriter \<Rightarrow> gotime \<Rightarrow> world \<Rightarrow> (err \<times> bufferWriter \<times> world) res" where
  "checkRotate sb now w =
     (if file_p sb = None then rotateFile sb now 0 w
      else case Date (stime sb) of
        (syear, smonth, sday) \<Rightarrow>
          (case Date now of
             (year1, month1, day1) \<Rightarrow>
               if year1 \<noteq> syear \<or> month1 \<noteq> smonth \<or> day1 \<noteq> sday then rotateFile sb now 0 w
               else if hour now \<noteq> hour (stime sb) then rotateFile sb now 0 w
               else if MaxSize \<le> nbytes sb then rotateFile sb now (slot sb + 1) w
               else Ok (None, sb, w)))"

section \<open>GetPrefix (logtool.go)\<close>

text \<open>
  What \<^verbatim>\<open>GetPrefix\<close> reads from the runtime: the goroutine id parsed from
  \<^verbatim>\<open>runtime.Stack\<close>, and the file, line and \<^verbatim>\<open>ok\<close> of \<^verbatim>\<open>runtime.Caller(skip)\<close>.
\<close>

record caller =
  c_goid :: nat
  c_ok :: bool
  c_file :: string
  c_line :: int

text \<open>The second result of \<^verbatim>\<open>path.Split\<close>: what follows the last slash.\<close>

definition path_Split_file :: "string \<Rightarrow> string" where
  "path_Split_file p = rev (takeWhile (\<lambda>c. c \<noteq> CHR ''/'') (rev p))"

definition GetPrefix :: "caller \<Rightarrow> string" where
  "GetPrefix ci =
     (''reqid-'' @ dec (c_goid ci) @ '' '') @
     (if c_ok ci then path_Split_file (c_file ci) @ '' '' @ sprintf_d (c_line ci) @ '' : ''
      else '' ??? '')"

section \<open>fileLogWriter (filelog.go)\<close>

text \<open>
  \<open>writers\<close> is the array \<^verbatim>\<open>[6]*bufferWriter\<close>: only the indices below 6 exist, and
  every access checks its index.  The locks are left out: the calls are modelled
  one at a time, which is what \<^verbatim>\<open>mu\<close> enforces.
\<close>

record fileLogWriter =
  w_basePath :: string
  w_logName :: string
  writers :: "nat \<Rightarrow> bufferWriter option"
  freeList :: "buffer list"

definition newFileLog :: "string \<Rightarrow> string \<Rightarrow> fileLogWriter" where
  "newFileLog ln bp = \<lparr>w_basePath = bp, w_logName = ln, writers = (\<lambda>_. None), freeList = []\<rparr>"

definition getBuffer :: "fileLogWriter \<Rightarrow> buffer \<times> fileLogWriter" where
  "getBuffer fl =
     (case freeList fl of
        [] \<Rightarrow> (new_buffer, fl)
      | b # rest \<Rightarrow> (buffer_Reset b, fl\<lparr>freeList := rest\<rparr>))"

definition putBuffer :: "fileLogWriter \<Rightarrow> buffer \<Rightarrow> fileLogWriter" where
  "putBuffer fl b =
     (if buffer_Len b \<ge> 256 then fl
      else fl\<lparr>freeList := b # freeList fl\<rparr>)"

text \<open>The zero \<^verbatim>\<open>time.Time\<close>: January 1 of year 1, 00:00:00.\<close>

definition zero_time :: gotime where
  "zero_time = \<lparr>year = 1, month = 1, day = 1, hour = 0, minute = 0, second = 0, nanosecond = 0\<rparr>"

text \<open>
  Lines 95 to 104 of \<^verbatim>\<open>write\<close>: the line is assembled in a buffer taken from
  \<^verbatim>\<open>bfPool\<close>.  Nothing is ever put into that pool, so the buffer is a new, empty
  one.  \<^verbatim>\<open>buf.Bytes()[buf.Len()-1]\<close> panics on an empty buffer.
\<close>

definition assemble :: "Level \<Rightarrow> string \<Rightarrow> gotime \<Rightarrow> caller \<Rightarrow> string res" where
  "assemble lv s now ci =
     (let buf1 = (if lv \<noteq> LevelAction then format_ts now else []);
          buf2 = buf1 @ GetPrefix ci;
          buf3 = buf2 @ s
      in if buf3 = [] then Panic ''index out of range''
         else if last buf3 \<noteq> CHR 0x0A then Ok (buf3 @ [CHR 0x0A])
         else Ok buf3)"

text \<open>Lines 107 to 115: the stream of the level, created when absent.\<close>

definition get_writer :: "fileLogWriter \<Rightarrow> Level \<Rightarrow> bufferWriter" where
  "get_writer fl lv =
     (case writers fl (unat lv) of
        Some sb \<Rightarrow> sb
      | None \<Rightarrow>
          \<lparr>Writer = None, basePath = w_basePath fl, logName = w_logName fl, file_p = None,
           level = lv, stime = zero_time, slot = 0, nbytes = 0\<rparr>)"

text \<open>
  The method \<^verbatim>\<open>(*fileLogWriter).write\<close>, here \<open>write_fl\<close> (\<open>write\<close> is a keyword
  of Isabelle); \<open>now\<close> is the result of \<^verbatim>\<open>time.Now()\<close> and \<open>ci\<close> what \<^verbatim>\<open>GetPrefix(4)\<close>
  reads.  The error of \<^verbatim>\<open>writer.Write\<close> is not looked at.
\<close>

definition write_fl ::
  "fileLogWriter \<Rightarrow> Level \<Rightarrow> string \<Rightarrow> gotime \<Rightarrow> caller \<Rightarrow> world \<Rightarrow> (fileLogWriter \<times> world) res" where
  "write_fl fl lv s now ci w =
     (case assemble lv s now ci of
        Panic m \<Rightarrow> Panic m
      | Ok line \<Rightarrow>
          if \<not> unat lv < 6 then Panic ''index out of range''
          else
            (case checkRotate (get_writer fl lv) now w of
               Panic m \<Rightarrow> Panic m
             | Ok (Some e, sb1, w1) \<Rightarrow>
                 Ok (fl\<lparr>writers := (writers fl)(unat lv \<mapsto> sb1)\<rparr>,
                     Println (''[logtool] check rotate err: '' @ e) w1)
             | Ok (None, sb1, w1) \<Rightarrow>
                 (case bw_Write sb1 line w1 of
                    Panic m \<Rightarrow> Panic m
                  | Ok (_, _, sb2, w2) \<Rightarrow>
                      Ok (fl\<lparr>writers := (writers fl)(unat lv \<mapsto> sb2)\<rparr>, w2))))"





section \<open>Configuration and the leveled entry points (logtool.go)\<close>

text \<open>\<^verbatim>\<open>(*Level).Set\<close>, the \<^verbatim>\<open>flag.Value\<close> of \<^verbatim>\<open>-loglevel\<close>: the loop over \<^verbatim>\<open>levelName\<close>.\<close>

fun Level_Set_loop :: "nat \<Rightarrow> string list \<Rightarrow> string \<Rightarrow> Level \<Rightarrow> err \<times> Level" where
  "Level_Set_loop k [] s l = (Some ''invaild level'', l)"
| "Level_Set_loop k (v # vs) s l =
     (if (of_nat k :: Level) \<noteq> levelDefault \<and> v = s then (None, of_nat k)
      else Level_Set_loop (Suc k) vs s l)"

definition Level_Set :: "Level \<Rightarrow> string \<Rightarrow> err \<times> Level" where
  "Level_Set l s = Level_Set_loop 0 levelName s l"

text \<open>The package variables.\<close>

record globals =
  inited :: bool
  logPath :: string
  cfg_logName :: string
  logLevel :: Level
  alsoStdout :: bool
  skip :: int
  flagLoglevel :: Level
  flagLogname :: string
  flagLogpath :: string
  logWriter :: "fileLogWriter option"

definition initial_globals :: globals where
  "initial_globals =
     \<lparr>inited = False, logPath = ''/data'', cfg_logName = ''logtool'', logLevel = LevelDebug,
      alsoStdout = False, skip = 3, flagLoglevel = 0, flagLogname = [], flagLogpath = [],
      logWriter = None\<rparr>"

definition SetLevel :: "Level \<Rightarrow> globals \<Rightarrow> globals res" where
  "SetLevel lv g =
     (if lv < LevelDebug \<or> lv > LevelError then Panic ''invalid log level''
      else Ok (g\<lparr>logLevel := lv\<rparr>))"

definition SetName :: "string \<Rightarrow> globals \<Rightarrow> globals res" where
  "SetName name g =
     (if name = [] then Panic ''invalid log name''
      else Ok (g\<lparr>cfg_logName := name\<rparr>))"

definition Init :: "string \<Rightarrow> Level \<Rightarrow> bool \<Rightarrow> globals \<Rightarrow> world \<Rightarrow> (globals \<times> world) res" where
  "Init name lv stdOut g w =
     (let w1 = (if inited g then Println ''logtool has be inited'' w else w);
          g1 = g\<lparr>alsoStdout := stdOut\<rparr>
      in case SetName name g1 of
           Panic m \<Rightarrow> Panic m
         | Ok g2 \<Rightarrow>
             (case SetLevel lv g2 of
                Panic m \<Rightarrow> Panic m
              | Ok g3 \<Rightarrow> Ok (g3\<lparr>inited := True\<rparr>, w1)))"

text \<open>\<^verbatim>\<open>level()\<close>\<close>

definition level_of :: "globals \<Rightarrow> Level" where
  "level_of g = (if flagLoglevel g > levelDefault then flagLoglevel g else logLevel g)"

definition initWriter :: "globals \<Rightarrow> globals" where
  "initWriter g =
     (if logWriter g \<noteq> None then g
      else let g1 = (if flagLogname g \<noteq> [] then g\<lparr>cfg_logName := flagLogname g\<rparr> else g);
               g2 = (if flagLogpath g1 \<noteq> [] then g1\<lparr>logPath := flagLogpath g1\<rparr> else g1)
           in g2\<lparr>logWriter := Some (newFileLog (cfg_logName g2) (logPath g2))\<rparr>)"

text \<open>The layout \<^verbatim>\<open>2006-01-02 15:04:05\<close>.\<close>

definition format_sec :: "gotime \<Rightarrow> string" where
  "format_sec t =
     appendInt (year t) 4 @ ''-'' @ appendInt (int (month t)) 2 @ ''-'' @
     appendInt (int (day t)) 2 @ '' '' @ appendInt (int (hour t)) 2 @ '':'' @
     appendInt (int (minute t)) 2 @ '':'' @ appendInt (int (second t)) 2"

text \<open>
  What one call of the package's \<^verbatim>\<open>write\<close> reads from outside: the time and the
  caller of the console line, and the time and the caller read by the writer.
\<close>

record reads =
  r_now :: gotime
  r_caller :: caller
  r_wnow :: gotime
  r_wcaller :: caller

text \<open>The package function \<^verbatim>\<open>write(level, msg)\<close>.\<close>

definition write_pkg :: "Level \<Rightarrow> string \<Rightarrow> reads \<Rightarrow> globals \<Rightarrow> world \<Rightarrow> (globals \<times> world) res" where
  "write_pkg lv msg rd g w =
     (if \<not> inited g then
        (case levelName_at lv of
           Panic m \<Rightarrow> Panic m
         | Ok name \<Rightarrow>
             Ok (g, Println (format_sec (r_now rd) @ '' '' @ GetPrefix (r_caller rd) @
                             '' ['' @ name @ ''] '' @ msg) w))
      else
        (let g1 = (if logWriter g = None then initWriter g else g)
         in case logWriter g1 of
              None \<Rightarrow> Panic ''nil pointer dereference''
            | Some fl \<Rightarrow>
                (case write_fl fl lv msg (r_wnow rd) (r_wcaller rd) w of
                   Panic m \<Rightarrow> Panic m
                 | Ok (fl1, w1) \<Rightarrow>
                     if alsoStdout g1 then
                       (case levelName_at lv of
                          Panic m \<Rightarrow> Panic m
                        | Ok name \<Rightarrow>
                            Ok (g1\<lparr>logWriter := Some fl1\<rparr>,
                                Println (format_sec (r_now rd) @ '' ['' @ name @ ''] '' @ msg) w1))
                     else Ok (g1\<lparr>logWriter := Some fl1\<rparr>, w1))))"

definition Debug :: "string \<Rightarrow> reads \<Rightarrow> globals \<Rightarrow> world \<Rightarrow> (globals \<times> world) res" where
  "Debug str rd g w = (if level_of g \<le> LevelDebug then write_pkg LevelDebug str rd g w else Ok (g, w))"

definition Info :: "string \<Rightarrow> reads \<Rightarrow> globals \<Rightarrow> world \<Rightarrow> (globals \<times> world) res" where
  "Info str rd g w = (if level_of g \<le> LevelInfo then write_pkg LevelInfo str rd g w else Ok (g, w))"

definition Warn :: "string \<Rightarrow> reads \<Rightarrow> globals \<Rightarrow> world \<Rightarrow> (globals \<times> world) res" where
  "Warn str rd g w = (if level_of g \<le> LevelWarn then write_pkg LevelWarn str rd g w else Ok (g, w))"

definition Error :: "string \<Rightarrow> reads \<Rightarrow> globals \<Rightarrow> world \<Rightarrow> (globals \<times> world) res" where
  "Error str rd g w = (if level_of g \<le> LevelError then write_pkg LevelError str rd g w else Ok (g, w))"

text \<open>
  \<^verbatim>\<open>Debugs\<close>, \<^verbatim>\<open>Debugf\<close> and their like for the other levels make the same call
  with the string \<^verbatim>\<open>fmt\<close> has formatted.  \<^verbatim>\<open>Action\<close> writes what \<^verbatim>\<open>json.Marshal\<close>
  returns: that result (the error or the string) is taken as given.
\<close>

definition Action :: "string + string \<Rightarrow> reads \<Rightarrow> globals \<Rightarrow> world \<Rightarrow> (err \<times> globals \<times> world) res" where
  "Action marshalled rd g w =
     (case marshalled of
        Inl e \<Rightarrow> Ok (Some ''action data is empty'', g, w)
      | Inr str \<Rightarrow>
          (case write_pkg LevelAction str rd g w of
             Panic m \<Rightarrow> Panic m
           | Ok (g1, w1) \<Rightarrow> Ok (None, g1, w1)))"

text \<open>
  \<^verbatim>\<open>LogWriter\<close>, the \<^verbatim>\<open>io.Writer\<close> behind the standard logger.  \<^verbatim>\<open>NewLogWriter\<close> (and
  \<^verbatim>\<open>NewStdLog\<close>, which calls it) stores the level it is given without a check.
\<close>

record LogWriter =
  lw_level :: Level

definition NewLogWriter :: "Level \<Rightarrow> LogWriter" where
  "NewLogWriter lv = \<lparr>lw_level = lv\<rparr>"

text \<open>The level and the data after the marker of the built-in logger is taken off.\<close>

definition LogWriter_marker :: "LogWriter \<Rightarrow> string \<Rightarrow> Level \<times> string" where
  "LogWriter_marker this data =
     (if lw_level this = levelDefault \<and> length data > 3 \<and> data ! 0 = CHR ''['' then
        (if take 3 data = ''[D]'' then (LevelDebug, drop 3 data)
         else if take 3 data = ''[I]'' then (LevelInfo, drop 3 data)
         else if take 3 data = ''[W]'' then (LevelWarn, drop 3 data)
         else if take 3 data = ''[E]'' then (LevelError, drop 3 data)
         else (lw_level this, data))
      else (lw_level this, data))"

definition LogWriter_Write ::
  "LogWriter \<Rightarrow> string \<Rightarrow> reads \<Rightarrow> globals \<Rightarrow> world \<Rightarrow> (nat \<times> globals \<times> world) res" where
  "LogWriter_Write this data rd g w =
     (case LogWriter_marker this data of
        (l, data1) \<Rightarrow>
          if l = levelDefault \<or> level_of g \<le> l then
            (case write_pkg l data1 rd g w of
               Panic m \<Rightarrow> Panic m
             | Ok (g1, w1) \<Rightarrow> Ok (length data1, g1, w1))
          else Ok (length data1, g, w))"

section \<open>Well-formed streams and observations\<close>

text \<open>
  What the code maintains for every stream it has created: the level indexes
  \<^verbatim>\<open>levelName\<close>, and \<^verbatim>\<open>Writer\<close> is set exactly when \<^verbatim>\<open>file\<close> is and wraps that
  file (\<^verbatim>\<open>rotateFile\<close> assigns both, lines 174 and 181).
\<close>

definition wf_stream :: "bufferWriter \<Rightarrow> bool" where
  "wf_stream sb \<longleftrightarrow>
     unat (level sb) < 6 \<and>
     (case file_p sb of
        None \<Rightarrow> Writer sb = None
      | Some f \<Rightarrow> (case Writer sb of None \<Rightarrow> False | Some b \<Rightarrow> wr b = f))"

definition wf_writer :: "fileLogWriter \<Rightarrow> bool" where
  "wf_writer fl \<longleftrightarrow>
     list_all
       (\<lambda>i. case writers fl i of None \<Rightarrow> True | Some sb \<Rightarrow> wf_stream sb \<and> unat (level sb) = i)
       [0..<6]"

definition wf_globals :: "globals \<Rightarrow> bool" where
  "wf_globals g \<longleftrightarrow> (case logWriter g of None \<Rightarrow> True | Some fl \<Rightarrow> wf_writer fl)"

text \<open>Every buffer on the free list is shorter than 256 bytes.\<close>

definition pool_small :: "fileLogWriter \<Rightarrow> bool" where
  "pool_small fl \<longleftrightarrow> list_all (\<lambda>b. buffer_Len b < 256) (freeList fl)"

text \<open>The system calls \<^verbatim>\<open>rotateFile\<close> can make on the file it leaves.\<close>

definition old_file_events :: "fileptr \<Rightarrow> string \<Rightarrow> event set" where
  "old_file_events f p = {EWrite f p True, EWrite f p False, EClose f True, EClose f False}"

text \<open>The path \<^verbatim>\<open>createFile\<close> opens, and the system calls it can make.\<close>

definition logPath_of :: "string \<Rightarrow> string \<Rightarrow> Level \<Rightarrow> 64 word \<Rightarrow> gotime \<Rightarrow> string" where
  "logPath_of bp ln lv sl t =
     filepath_Join2 (logDir_of bp ln t) (logFile_of (levelName ! unat lv) sl t)"

definition create_events :: "string \<Rightarrow> string \<Rightarrow> event list set" where
  "create_events dir path =
     {[EMkdirAll dir False], [EMkdirAll dir True, EOpenFile path False],
      [EMkdirAll dir True, EOpenFile path True]}"

text \<open>The number of newline bytes a string ends in, and what \<^verbatim>\<open>write\<close> puts before the message.\<close>

definition trailing_newlines :: "string \<Rightarrow> nat" where
  "trailing_newlines xs = length (takeWhile (\<lambda>c. c = CHR 0x0A) (rev xs))"

definition line_prefix :: "Level \<Rightarrow> gotime \<Rightarrow> caller \<Rightarrow> string" where
  "line_prefix lv now ci = (if lv \<noteq> LevelAction then format_ts now else []) @ GetPrefix ci"

text \<open>
  The errors of \<^verbatim>\<open>createFile\<close> (lines 194 and 205), and what a call of the writer
  leaves on the console and in the list of system calls.
\<close>

definition create_error :: "string \<Rightarrow> bool" where
  "create_error e \<longleftrightarrow>
     take 28 e = ''logtool: cannot create log: '' \<or> take 31 e = ''logtool: cannot open log file: ''"

definition console_after :: "(fileLogWriter \<times> world) res \<Rightarrow> string list option" where
  "console_after r = (case r of Ok (fl, w) \<Rightarrow> Some (console w) | Panic m \<Rightarrow> None)"

definition trace_after :: "(fileLogWriter \<times> world) res \<Rightarrow> event list option" where
  "trace_after r = (case r of Ok (fl, w) \<Rightarrow> Some (trace w) | Panic m \<Rightarrow> None)"




text \<open>
  For the paths: an element that \<^verbatim>\<open>Clean\<close> keeps as it is; a string without slash
  and dot; the shape of the list of elements \<^verbatim>\<open>Clean\<close> builds (some \<^verbatim>\<open>..\<close>, none
  in a rooted path, then plain elements); and the part of the directory below
  \<^verbatim>\<open>logs\<close>.
\<close>

definition plain :: "string \<Rightarrow> bool" where
  "plain c \<longleftrightarrow> c \<noteq> [] \<and> CHR ''/'' \<notin> set c \<and> c \<noteq> ''.'' \<and> c \<noteq> ''..''"

definition pathsafe :: "string \<Rightarrow> bool" where
  "pathsafe s \<longleftrightarrow> s \<noteq> [] \<and> CHR ''/'' \<notin> set s \<and> CHR ''.'' \<notin> set s"

definition stack_ok :: "bool \<Rightarrow> string list \<Rightarrow> bool" where
  "stack_ok r out \<longleftrightarrow>
     (\<exists>k P. out = replicate k ''..'' @ P \<and> list_all plain P \<and> (r \<longrightarrow> k = 0))"


definition date_dir :: "string \<Rightarrow> gotime \<Rightarrow> string" where
  "date_dir ln t =
     ln @ ''/'' @ sprintf_0d 4 (year t) @ sprintf_0d 2 (int (month t)) @ ''/'' @
     sprintf_0d 2 (int (day t))"

section \<open>Sample states\<close>

definition ex_time :: gotime where
  "ex_time = \<lparr>year = 2026, month = 10, day = 30, hour = 7, minute = 5, second = 9,
              nanosecond = 120000000\<rparr>"

definition ex_later :: gotime where
  "ex_later = \<lparr>year = 2026, month = 10, day = 30, hour = 8, minute = 0, second = 1,
               nanosecond = 0\<rparr>"

definition ex_caller :: caller where
  "ex_caller = \<lparr>c_goid = 17, c_ok = True, c_file = ''/src/app/main.go'', c_line = 42\<rparr>"

definition ex_bufio :: bufio where
  "ex_bufio = \<lparr>wr = 0, bsize = 256 * 1024, buf = ''abc'', werr = None\<rparr>"

definition ex_stream :: bufferWriter where
  "ex_stream =
     \<lparr>Writer = Some ex_bufio, basePath = ''/data'', logName = ''app'', file_p = Some 0,
      level = LevelInfo, stime = ex_time, slot = 0, nbytes = 3\<rparr>"

definition ex_world :: world where
  "ex_world =
     \<lparr>fobjs = [\<lparr>fname = ''/data/logs/app/202610/30/info-07.log'', closed = False\<rparr>],
      disk = [''/data/logs/app/202610/30/info-07.log'' \<mapsto> []],
      trace = [EMkdirAll ''/data/logs/app/202610/30'' True,
               EOpenFile ''/data/logs/app/202610/30/info-07.log'' True],
      console = [], faults = (\<lambda>_. None)\<rparr>"

definition ex_fault_world :: world where
  "ex_fault_world =
     \<lparr>fobjs = [], disk = Map.empty, trace = [], console = [],
      faults = (\<lambda>k. if k = 0 then Some ''permission denied'' else None)\<rparr>"

definition ex_new_stream :: bufferWriter where
  "ex_new_stream =
     \<lparr>Writer = None, basePath = ''/data'', logName = ''app'', file_p = None,
      level = LevelInfo, stime = zero_time, slot = 0, nbytes = 0\<rparr>"


definition ex_big_buffer :: buffer where
  "ex_big_buffer = \<lparr>b_bytes = ''hi'', b_cap = 512\<rparr>"

definition ex_reads :: reads where
  "ex_reads = \<lparr>r_now = ex_time, r_caller = ex_caller, r_wnow = ex_time, r_wcaller = ex_caller\<rparr>"




section \<open>Evaluation\<close>

lemmas Level_defs =
  levelDefault_def LevelDebug_def LevelInfo_def LevelWarn_def LevelError_def LevelAction_def

lemmas fmt_defs = sprintf_0d_def sprintf_d_def appendInt_def pad0_def dec.simps digit_char_def

lemmas path_defs = HasSuffix_def filepath_Join2_def filepath_Clean_def clean_step_def

lemma ex_format_ts: "format_ts ex_time = ''2026-10-30 07:05:09.12 ''"
  by (simp add: format_ts_def format_frac3_def ex_time_def fmt_defs)

lemma ex_GetPrefix: "GetPrefix ex_caller = ''reqid-17 main.go 42 : ''"
  by (simp add: GetPrefix_def ex_caller_def path_Split_file_def fmt_defs)

lemma ex_logDir: "logDir_of ''/data'' ''app'' ex_time = ''/data/logs/app/202610/30''"
  by (simp add: logDir_of_def ex_time_def fmt_defs path_defs)



section \<open>System calls and rotation: basic facts\<close>

lemma bufio_Flush_trace:
  "bufio_Flush b w = (e, b1, w1) \<Longrightarrow>
     (\<exists>evs. trace w1 = trace w @ evs \<and> set evs \<subseteq> {EWrite (wr b) (buf b) True, EWrite (wr b) (buf b) False})
     \<and> fobjs w1 = fobjs w \<and> console w1 = console w \<and> faults w1 = faults w \<and> wr b1 = wr b \<and> bsize b1 = bsize b"
  by (auto simp: bufio_Flush_def file_Write_def log_event_def Let_def split: if_splits option.splits)

lemma file_Close_post:
  "file_Close f w = (e, w1) \<Longrightarrow>
     (\<exists>evs. trace w1 = trace w @ evs \<and> set evs \<subseteq> {EClose f True, EClose f False})
     \<and> \<not> is_open w1 f \<and> length (fobjs w1) = length (fobjs w) \<and> disk w1 = disk w
     \<and> console w1 = console w \<and> faults w1 = faults w"
  by (auto simp: file_Close_def log_event_def is_open_def Let_def split: if_splits option.splits)


lemma levelName_at_ok: "unat lv < 6 \<Longrightarrow> \<exists>name. levelName_at lv = Ok name"
  by (simp add: levelName_at_def levelName_def)

lemma createFile_cases:
  assumes "unat lv < 6"
  shows "(\<exists>e. faults w (length (trace w)) = Some e \<and>
            createFile bp ln lv sl t w =
              Ok (Inl (''logtool: cannot create log: '' @ e),
                  w\<lparr>trace := trace w @ [EMkdirAll (logDir_of bp ln t) False]\<rparr>))
       \<or> (\<exists>e. faults w (length (trace w)) = None \<and> faults w (Suc (length (trace w))) = Some e \<and>
            createFile bp ln lv sl t w =
              Ok (Inl (''logtool: cannot open log file: '' @ e),
                  w\<lparr>trace := trace w @ [EMkdirAll (logDir_of bp ln t) True,
                                          EOpenFile (logPath_of bp ln lv sl t) False]\<rparr>))
       \<or> (faults w (length (trace w)) = None \<and> faults w (Suc (length (trace w))) = None \<and>
            createFile bp ln lv sl t w =
              Ok (Inr (length (fobjs w)),
                  w\<lparr>fobjs := fobjs w @ [\<lparr>fname = logPath_of bp ln lv sl t, closed = False\<rparr>],
                    disk := (case disk w (logPath_of bp ln lv sl t) of
                               None \<Rightarrow> (disk w)(logPath_of bp ln lv sl t \<mapsto> [])
                             | Some _ \<Rightarrow> disk w),
                    trace := trace w @ [EMkdirAll (logDir_of bp ln t) True,
                                        EOpenFile (logPath_of bp ln lv sl t) True]\<rparr>))"
  using assms
  by (auto simp: createFile_def os_MkdirAll_def os_OpenFile_def fault_now_def log_event_def
      levelName_at_def levelName_def logPath_of_def Let_def split: option.splits)

lemma close_current_open:
  assumes "file_p sb = Some f" "Writer sb = Some b"
  shows "close_current sb w =
           Ok (sb\<lparr>Writer := Some (fst (snd (bufio_Flush b w)))\<rparr>,
               snd (file_Close f (snd (snd (bufio_Flush b w)))))"
  using assms by (simp add: close_current_def bw_Flush_def split: prod.splits)

lemma close_current_post:
  assumes "file_p sb = Some f" "Writer sb = Some b" "wr b = f" "close_current sb w = Ok (sb1, w1)"
  shows "(\<exists>evs. trace w1 = trace w @ evs \<and> set evs \<subseteq> old_file_events f (buf b))"
    and "\<not> is_open w1 f" and "length (fobjs w1) = length (fobjs w)"
    and "console w1 = console w" and "faults w1 = faults w"
    and "\<exists>b1. sb1 = sb\<lparr>Writer := Some b1\<rparr>"
proof -
  obtain e b1 w0 where fl: "bufio_Flush b w = (e, b1, w0)" by (metis prod_cases3)
  obtain e2 where cl: "file_Close f w0 = (e2, w1)" and sb1: "sb1 = sb\<lparr>Writer := Some b1\<rparr>"
    using assms fl by (cases "file_Close f w0") (auto simp: close_current_open)
  from bufio_Flush_trace [OF fl] assms(3) obtain evs1 where
    t1: "trace w0 = trace w @ evs1" "set evs1 \<subseteq> {EWrite f (buf b) True, EWrite f (buf b) False}"
    and r1: "fobjs w0 = fobjs w" "console w0 = console w" "faults w0 = faults w" by auto
  from file_Close_post [OF cl] obtain evs2 where
    t2: "trace w1 = trace w0 @ evs2" "set evs2 \<subseteq> {EClose f True, EClose f False}"
    and r2: "\<not> is_open w1 f" "length (fobjs w1) = length (fobjs w0)" "console w1 = console w0"
       "faults w1 = faults w0" by auto
  from t1 t2 have "trace w1 = trace w @ (evs1 @ evs2)" "set (evs1 @ evs2) \<subseteq> old_file_events f (buf b)"
    by (auto simp: old_file_events_def)
  then show "\<exists>evs. trace w1 = trace w @ evs \<and> set evs \<subseteq> old_file_events f (buf b)" by blast
  show "\<not> is_open w1 f" by fact
  show "length (fobjs w1) = length (fobjs w)" using r1 r2 by simp
  show "console w1 = console w" using r1 r2 by simp
  show "faults w1 = faults w" using r1 r2 by simp
  show "\<exists>b1. sb1 = sb\<lparr>Writer := Some b1\<rparr>" using sb1 by blast
qed


section \<open>The assembled line\<close>

lemma dec_nonempty: "dec n \<noteq> []"
  by (subst dec.simps) simp

lemma digit_char_in: "d < 10 \<Longrightarrow> digit_char d \<in> set ''0123456789''"
proof -
  assume "d < 10"
  then have "d \<in> {0, 1, 2, 3, 4, 5, 6, 7, 8, 9}" by auto
  then show ?thesis by (auto simp: digit_char_def)
qed

lemma dec_digits: "set (dec n) \<subseteq> set ''0123456789''"
proof (induction n rule: dec.induct)
  case (1 n)
  show ?case
  proof (cases "n < 10")
    case True
    then show ?thesis using digit_char_in [of n] by (subst dec.simps) simp
  next
    case False
    have "n mod 10 < 10" by simp
    from digit_char_in [OF this] 1 [OF False] False show ?thesis
      by (subst dec.simps) simp
  qed
qed

lemma pad0_digits: "set ds \<subseteq> set ''0123456789'' \<Longrightarrow> set (pad0 k ds) \<subseteq> set ''0123456789''"
  by (auto simp: pad0_def)

lemma pad0_nonempty: "ds \<noteq> [] \<Longrightarrow> pad0 k ds \<noteq> []"
  by (simp add: pad0_def)

lemma appendInt_head:
  "\<exists>c cs. appendInt x k = c # cs \<and> c \<in> set ''-0123456789''"
proof (cases "x < 0")
  case True
  then show ?thesis by (simp add: appendInt_def)
next
  case False
  let ?p = "pad0 k (dec (nat x))"
  have ne: "?p \<noteq> []" by (simp add: pad0_nonempty dec_nonempty)
  then obtain c cs where p: "?p = c # cs" by (cases ?p) auto
  have "set ?p \<subseteq> set ''0123456789''" by (rule pad0_digits [OF dec_digits])
  with p have "c \<in> set ''0123456789''" by auto
  with p False show ?thesis by (auto simp: appendInt_def)
qed

lemma format_ts_head: "\<exists>c cs. format_ts t = c # cs \<and> c \<in> set ''-0123456789''"
proof -
  from appendInt_head [of "year t" 4] obtain c cs where
    "appendInt (year t) 4 = c # cs" "c \<in> set ''-0123456789''" by blast
  then show ?thesis by (simp add: format_ts_def)
qed

lemma GetPrefix_head: "\<exists>cs. GetPrefix ci = CHR ''r'' # cs"
  by (simp add: GetPrefix_def)

lemma GetPrefix_last: "GetPrefix ci \<noteq> [] \<and> last (GetPrefix ci) = CHR '' ''"
  by (simp add: GetPrefix_def)

lemma line_prefix_last: "line_prefix lv now ci \<noteq> [] \<and> last (line_prefix lv now ci) = CHR '' ''"
  using GetPrefix_last [of ci] by (simp add: line_prefix_def)

lemma assemble_eq:
  "assemble lv s now ci =
     Ok (line_prefix lv now ci @ s @ (if s \<noteq> [] \<and> last s = CHR 0x0A then [] else [CHR 0x0A]))"
proof -
  define P where "P = line_prefix lv now ci"
  have P: "P \<noteq> []" "last P = CHR '' ''"
    using line_prefix_last [of lv now ci] by (simp_all add: P_def)
  have a: "assemble lv s now ci =
      (if P @ s = [] then Panic ''index out of range''
       else if last (P @ s) \<noteq> CHR 0x0A then Ok ((P @ s) @ [CHR 0x0A]) else Ok (P @ s))"
    by (simp add: assemble_def line_prefix_def Let_def P_def)
  show ?thesis unfolding a P_def [symmetric]
    by (cases "s = []") (simp_all add: P)
qed

lemma trailing_newlines_prefix:
  assumes "p \<noteq> []" "last p \<noteq> CHR 0x0A"
  shows "trailing_newlines (p @ s) = trailing_newlines s"
proof -
  from assms(1) obtain ys y where p: "p = ys @ [y]" by (cases p rule: rev_cases) auto
  with assms(2) have y: "y \<noteq> CHR 0x0A" by simp
  have "takeWhile (\<lambda>c. c = CHR 0x0A) (rev s @ y # rev ys) = takeWhile (\<lambda>c. c = CHR 0x0A) (rev s)"
    using y by (rule takeWhile_tail)
  then show ?thesis by (simp add: trailing_newlines_def p)
qed

lemma trailing_newlines_snoc: "trailing_newlines (xs @ [CHR 0x0A]) = Suc (trailing_newlines xs)"
  by (simp add: trailing_newlines_def)

lemma trailing_newlines_zero: "trailing_newlines s = 0 \<longleftrightarrow> \<not> (s \<noteq> [] \<and> last s = CHR 0x0A)"
proof (cases s rule: rev_cases)
  case Nil
  then show ?thesis by (simp add: trailing_newlines_def)
next
  case (snoc ys y)
  then show ?thesis by (simp add: trailing_newlines_def)
qed

section \<open>Streams stay well formed\<close>

lemma bufio_Write_step_wr: "bufio_Write_step b p w = (n, b1, w1) \<Longrightarrow> wr b1 = wr b"
  by (auto simp: bufio_Write_step_def Let_def split: if_splits prod.splits dest: bufio_Flush_trace)

lemma bufio_Write_loop_wr: "bufio_Write_loop b p nn w = (nn', p', b', w') \<Longrightarrow> wr b' = wr b"
proof (induction b p nn w rule: bufio_Write_loop.induct)
  case (1 b p nn w)
  show ?case
  proof (cases "bsize b - length (buf b) < length p \<and> werr b = None")
    case True
    obtain n b1 w1 where st: "bufio_Write_step b p w = (n, b1, w1)" by (metis prod_cases3)
    from "1.prems" True st have "bufio_Write_loop b1 (drop n p) (nn + n) w1 = (nn', p', b', w')"
      by (subst (asm) bufio_Write_loop.simps) simp
    from "1.IH" [OF True st [symmetric] refl this] bufio_Write_step_wr [OF st]
    show ?thesis by simp
  next
    case False
    with "1.prems" show ?thesis by (subst (asm) bufio_Write_loop.simps) auto
  qed
qed

lemma bufio_Write_wr: "bufio_Write b p w = (n, e, b', w') \<Longrightarrow> wr b' = wr b"
  by (auto simp: bufio_Write_def split: prod.splits if_splits dest: bufio_Write_loop_wr)

lemma bw_Write_wf:
  assumes "wf_stream sb" "file_p sb \<noteq> None"
  shows "\<exists>n e sb' w'. bw_Write sb p w = Ok (n, e, sb', w') \<and> wf_stream sb' \<and> level sb' = level sb"
proof -
  from assms obtain f b where f: "file_p sb = Some f" "Writer sb = Some b" "wr b = f"
    by (auto simp: wf_stream_def split: option.splits)
  obtain n e b' w' where bw: "bufio_Write b p w = (n, e, b', w')" by (metis prod_cases4)
  from bufio_Write_wr [OF bw] f assms(1) bw show ?thesis
    by (simp add: bw_Write_def wf_stream_def)
qed

lemma close_current_wf:
  assumes "wf_stream sb"
  shows "\<exists>sb1 w1 evs bo. close_current sb w = Ok (sb1, w1) \<and> trace w1 = trace w @ evs \<and>
           (\<forall>f. file_p sb = Some f \<longrightarrow> \<not> is_open w1 f \<and>
                (\<exists>b. Writer sb = Some b \<and> set evs \<subseteq> old_file_events f (buf b))) \<and>
           (file_p sb = None \<longrightarrow> evs = []) \<and>
           (\<forall>f. file_p sb = Some f \<and> \<not> is_open w f \<longrightarrow> evs = []) \<and>
           length (fobjs w1) = length (fobjs w) \<and> console w1 = console w \<and>
           wf_stream sb1 \<and> sb1 = sb\<lparr>Writer := bo\<rparr>"
proof (cases "file_p sb")
  case None
  have "sb = sb\<lparr>Writer := Writer sb\<rparr>" by simp
  then have "\<exists>bo. sb = sb\<lparr>Writer := bo\<rparr>" by (rule exI)
  with None assms show ?thesis by (simp add: close_current_def)
next
  case (Some f)
  with assms obtain b where b: "Writer sb = Some b" "wr b = f"
    by (auto simp: wf_stream_def split: option.splits)
  obtain sb1 w1 where cc: "close_current sb w = Ok (sb1, w1)"
    using Some b by (simp add: close_current_open)
  obtain e b1 w0 where fl: "bufio_Flush b w = (e, b1, w0)" by (metis prod_cases3)
  with cc Some b have sb1: "sb1 = sb\<lparr>Writer := Some b1\<rparr>" by (simp add: close_current_open)
  from bufio_Flush_trace [OF fl] have "wr b1 = f" using b by simp
  with sb1 assms Some have wf1: "wf_stream sb1" by (simp add: wf_stream_def)
  have "trace w1 = trace w" if "\<not> is_open w f"
    using that cc Some b
    by (auto simp: close_current_open bufio_Flush_def file_Write_def file_Close_def Let_def
        split: if_splits)
  with close_current_post [OF Some b cc] wf1 sb1 Some b cc show ?thesis by auto
qed

lemma createFile_result:
  assumes "unat lv < 6"
  shows "\<exists>r w' rest. createFile bp ln lv sl t w = Ok (r, w') \<and>
           trace w' = trace w @ rest \<and>
           rest \<in> create_events (logDir_of bp ln t) (logPath_of bp ln lv sl t) \<and>
           console w' = console w \<and>
           (case r of
              Inl e \<Rightarrow> fobjs w' = fobjs w \<and> disk w' = disk w \<and> create_error e
            | Inr f \<Rightarrow>
                f = length (fobjs w) \<and>
                fobjs w' = fobjs w @ [\<lparr>fname = logPath_of bp ln lv sl t, closed = False\<rparr>] \<and>
                rest = [EMkdirAll (logDir_of bp ln t) True, EOpenFile (logPath_of bp ln lv sl t) True])"
  using createFile_cases [OF assms, of w bp ln sl t]
  by (elim disjE exE conjE) (simp_all add: create_events_def create_error_def)

lemma rotateFile_wf:
  assumes "wf_stream sb"
  shows "\<exists>e sb' w' evs rest.
           rotateFile sb now sl w = Ok (e, sb', w') \<and>
           trace w' = trace w @ evs @ rest \<and>
           rest \<in> create_events (logDir_of (basePath sb) (logName sb) now)
                    (logPath_of (basePath sb) (logName sb) (level sb) sl now) \<and>
           (\<forall>f. file_p sb = Some f \<longrightarrow>
                (\<exists>b. Writer sb = Some b \<and> set evs \<subseteq> old_file_events f (buf b))) \<and>
           (file_p sb = None \<longrightarrow> evs = []) \<and>
           (\<forall>f. file_p sb = Some f \<and> \<not> is_open w f \<longrightarrow> evs = []) \<and>
           (\<forall>f. file_p sb = Some f \<and> f < length (fobjs w) \<longrightarrow> \<not> is_open w' f) \<and>
           wf_stream sb' \<and> level sb' = level sb \<and> console w' = console w \<and>
           (case e of
              Some m \<Rightarrow> (\<exists>bo. sb' = sb\<lparr>Writer := bo\<rparr>) \<and> length (fobjs w') = length (fobjs w) \<and>
                create_error m
            | None \<Rightarrow>
                file_p sb' = Some (length (fobjs w)) \<and> is_open w' (length (fobjs w)) \<and>
                nbytes sb' = 0 \<and> stime sb' = now \<and> slot sb' = sl \<and>
                Writer sb' = Some (NewWriterSize (length (fobjs w)) bufferSize))"
proof -
  let ?dir = "logDir_of (basePath sb) (logName sb) now"
  let ?path = "logPath_of (basePath sb) (logName sb) (level sb) sl now"
  from close_current_wf [OF assms, of w] obtain sb1 w1 evs bo where
    cc: "close_current sb w = Ok (sb1, w1)" and tr: "trace w1 = trace w @ evs"
    and old: "\<forall>f. file_p sb = Some f \<longrightarrow> \<not> is_open w1 f \<and>
                (\<exists>b. Writer sb = Some b \<and> set evs \<subseteq> old_file_events f (buf b))"
    and evs0: "file_p sb = None \<longrightarrow> evs = []"
    and evs1: "\<forall>f. file_p sb = Some f \<and> \<not> is_open w f \<longrightarrow> evs = []"
    and len: "length (fobjs w1) = length (fobjs w)" and con: "console w1 = console w"
    and wf1: "wf_stream sb1" and sb1: "sb1 = sb\<lparr>Writer := bo\<rparr>"
    by (elim exE conjE) (rule that)
  from assms have lv: "unat (level sb) < 6" by (simp add: wf_stream_def)
  from createFile_result [OF lv, of "basePath sb" "logName sb" sl now w1]
  obtain r w2 rest where cf: "createFile (basePath sb) (logName sb) (level sb) sl now w1 = Ok (r, w2)"
    and tr2: "trace w2 = trace w1 @ rest" and rest: "rest \<in> create_events ?dir ?path"
    and con2: "console w2 = console w1"
    and rr: "case r of
              Inl e \<Rightarrow> fobjs w2 = fobjs w1 \<and> disk w2 = disk w1 \<and> create_error e
            | Inr f \<Rightarrow> f = length (fobjs w1) \<and>
                fobjs w2 = fobjs w1 @ [\<lparr>fname = ?path, closed = False\<rparr>] \<and>
                rest = [EMkdirAll ?dir True, EOpenFile ?path True]"
    by (elim exE conjE) (rule that)
  have closed_f: "\<not> is_open w2 f" if "file_p sb = Some f" "f < length (fobjs w)" for f
  proof -
    from old that len have "f < length (fobjs w1)" "closed (fobjs w1 ! f)"
      by (auto simp: is_open_def)
    with rr show ?thesis by (cases r) (auto simp: is_open_def nth_append)
  qed
  show ?thesis
  proof (cases r)
    case (Inl e)
    with cf cc sb1 have "rotateFile sb now sl w = Ok (Some e, sb1, w2)"
      by (simp add: rotateFile_def)
    moreover have "trace w2 = trace w @ evs @ rest" using tr tr2 by simp
    moreover have "length (fobjs w2) = length (fobjs w)" "create_error e" using rr Inl len by simp_all
    moreover have "level sb1 = level sb" using sb1 by simp
    moreover have "console w2 = console w" using con con2 by simp
    moreover have "\<exists>bo. sb1 = sb\<lparr>Writer := bo\<rparr>" using sb1 by (rule exI)
    ultimately show ?thesis using rest old evs0 evs1 closed_f wf1
      by (intro exI [of _ "Some e"] exI [of _ sb1] exI [of _ w2] exI [of _ evs] exI [of _ rest]) simp
  next
    case (Inr f)
    with rr len have f: "f = length (fobjs w)"
      and fo: "fobjs w2 = fobjs w1 @ [\<lparr>fname = ?path, closed = False\<rparr>]" by simp_all
    define sb2 where "sb2 = sb1\<lparr>file_p := Some f, nbytes := 0, stime := now, slot := sl,
                   Writer := Some (NewWriterSize f bufferSize)\<rparr>"
    from Inr cf cc sb1 have "rotateFile sb now sl w = Ok (None, sb2, w2)"
      by (simp add: rotateFile_def sb2_def)
    moreover have "trace w2 = trace w @ evs @ rest" using tr tr2 by simp
    moreover have "wf_stream sb2" using wf1 by (simp add: wf_stream_def NewWriterSize_def sb2_def)
    moreover have "level sb2 = level sb" using sb1 by (simp add: sb2_def)
    moreover have "console w2 = console w" using con con2 by simp
    moreover have "is_open w2 (length (fobjs w))" using fo len by (simp add: is_open_def nth_append)
    moreover have "file_p sb2 = Some (length (fobjs w))" "nbytes sb2 = 0" "stime sb2 = now" "slot sb2 = sl"
      "Writer sb2 = Some (NewWriterSize (length (fobjs w)) bufferSize)"
      using f by (simp_all add: sb2_def)
    ultimately show ?thesis using rest old evs0 evs1 closed_f
      by (intro exI [of _ None] exI [of _ sb2] exI [of _ w2] exI [of _ evs] exI [of _ rest]) simp
  qed
qed

lemma checkRotate_cases:
  "checkRotate sb now w =
     (if file_p sb = None then rotateFile sb now 0 w
      else if (Date now, hour now) \<noteq> (Date (stime sb), hour (stime sb)) then rotateFile sb now 0 w
      else if MaxSize \<le> nbytes sb then rotateFile sb now (slot sb + 1) w
      else Ok (None, sb, w))"
  by (auto simp: checkRotate_def Date_def)

lemma checkRotate_wf:
  assumes "wf_stream sb"
  shows "\<exists>e sb' w'. checkRotate sb now w = Ok (e, sb', w') \<and> wf_stream sb' \<and>
           level sb' = level sb \<and> (e = None \<longrightarrow> file_p sb' \<noteq> None)"
proof -
  have r: "\<exists>e sb' w'. rotateFile sb now sl w = Ok (e, sb', w') \<and> wf_stream sb' \<and>
           level sb' = level sb \<and> (e = None \<longrightarrow> file_p sb' \<noteq> None)" for sl
    using rotateFile_wf [OF assms, of now sl w] by (auto split: option.splits)
  show ?thesis
    unfolding checkRotate_cases using r [of 0] r [of "slot sb + 1"] assms by auto
qed

text \<open>When the check failed, a rotation had been called for, and is called for again.\<close>

lemma checkRotate_failed:
  assumes "checkRotate sb now w = Ok (Some e, sb1, w1)"
  shows "\<exists>sl. rotateFile sb now sl w = Ok (Some e, sb1, w1) \<and>
           (\<forall>sb2 now2 w2.
              file_p sb2 = file_p sb \<and> stime sb2 = stime sb \<and> nbytes sb2 = nbytes sb \<and>
              slot sb2 = slot sb \<and> Date now2 = Date now \<and> hour now2 = hour now \<longrightarrow>
              checkRotate sb2 now2 w2 = rotateFile sb2 now2 sl w2)"
proof -
  consider (a) "file_p sb = None"
    | (b) "file_p sb \<noteq> None" "(Date now, hour now) \<noteq> (Date (stime sb), hour (stime sb))"
    | (c) "file_p sb \<noteq> None" "(Date now, hour now) = (Date (stime sb), hour (stime sb))"
          "MaxSize \<le> nbytes sb"
    | (d) "file_p sb \<noteq> None" "(Date now, hour now) = (Date (stime sb), hour (stime sb))"
          "\<not> MaxSize \<le> nbytes sb"
    by blast
  then show ?thesis
  proof cases
    case a
    with assms have "rotateFile sb now 0 w = Ok (Some e, sb1, w1)" by (simp add: checkRotate_cases)
    with a show ?thesis by (intro exI [of _ 0]) (auto simp: checkRotate_cases)
  next
    case b
    with assms have "rotateFile sb now 0 w = Ok (Some e, sb1, w1)" by (simp add: checkRotate_cases)
    with b show ?thesis by (intro exI [of _ 0]) (auto simp: checkRotate_cases)
  next
    case c
    with assms have "rotateFile sb now (slot sb + 1) w = Ok (Some e, sb1, w1)"
      by (simp add: checkRotate_cases)
    with c show ?thesis by (intro exI [of _ "slot sb + 1"]) (auto simp: checkRotate_cases)
  next
    case d
    with assms show ?thesis by (simp add: checkRotate_cases)
  qed
qed


lemma wf_writer_iff:
  "wf_writer fl \<longleftrightarrow>
     (\<forall>i<6. case writers fl i of None \<Rightarrow> True | Some sb \<Rightarrow> wf_stream sb \<and> unat (level sb) = i)"
  by (auto simp: wf_writer_def list_all_iff)

lemma wf_writer_new: "wf_writer (newFileLog ln bp)"
  by (simp add: wf_writer_iff newFileLog_def)

lemma get_writer_wf:
  assumes "wf_writer fl" "unat lv < 6"
  shows "wf_stream (get_writer fl lv) \<and> level (get_writer fl lv) = lv"
proof (cases "writers fl (unat lv)")
  case None
  with assms(2) show ?thesis by (simp add: get_writer_def wf_stream_def)
next
  case (Some sb)
  with assms have "wf_stream sb" "unat (level sb) = unat lv"
    by (auto simp: wf_writer_iff)
  with Some show ?thesis by (simp add: get_writer_def word_unat_eq_iff)
qed

lemma wf_writer_update:
  assumes "wf_writer fl" "wf_stream sb" "level sb = lv"
  shows "wf_writer (fl\<lparr>writers := (writers fl)(unat lv \<mapsto> sb)\<rparr>)"
  using assms by (auto simp: wf_writer_iff)

lemma assemble_ok: "\<exists>line. assemble lv s now ci = Ok line"
  by (simp add: assemble_eq)

lemma write_fl_ok:
  assumes "wf_writer fl" "unat lv < 6"
  shows "\<exists>fl' w' sb. write_fl fl lv s now ci w = Ok (fl', w') \<and> wf_writer fl' \<and>
           fl' = fl\<lparr>writers := (writers fl)(unat lv \<mapsto> sb)\<rparr> \<and> level sb = lv"
proof -
  obtain line where a: "assemble lv s now ci = Ok line" using assemble_ok by blast
  from get_writer_wf [OF assms] have g: "wf_stream (get_writer fl lv)" "level (get_writer fl lv) = lv"
    by simp_all
  from checkRotate_wf [OF g(1), of now w] obtain e sb1 w1 where
    cr: "checkRotate (get_writer fl lv) now w = Ok (e, sb1, w1)" and wf1: "wf_stream sb1"
    and l1: "level sb1 = lv" and op: "e = None \<longrightarrow> file_p sb1 \<noteq> None"
    using g(2) by auto
  show ?thesis
  proof (cases e)
    case (Some m)
    with a cr assms(2) have "write_fl fl lv s now ci w =
      Ok (fl\<lparr>writers := (writers fl)(unat lv \<mapsto> sb1)\<rparr>, Println (''[logtool] check rotate err: '' @ m) w1)"
      by (simp add: write_fl_def)
    with wf_writer_update [OF assms(1) wf1 l1] l1 show ?thesis by blast
  next
    case None
    with op have "file_p sb1 \<noteq> None" by simp
    from bw_Write_wf [OF wf1 this, of line w1] obtain n e2 sb2 w2 where
      bw: "bw_Write sb1 line w1 = Ok (n, e2, sb2, w2)" and wf2: "wf_stream sb2" and l2: "level sb2 = lv"
      using l1 by auto
    with None a cr assms(2) have "write_fl fl lv s now ci w =
      Ok (fl\<lparr>writers := (writers fl)(unat lv \<mapsto> sb2)\<rparr>, w2)"
      by (simp add: write_fl_def)
    with wf_writer_update [OF assms(1) wf2 l2] l2 show ?thesis by blast
  qed
qed

section \<open>C1: the case order of checkRotate\<close>

text \<open>
  C1.  For every stream, time and world, \<^verbatim>\<open>checkRotate(now)\<close> decides in this
  order: no file open, rotate to slot 0; else the date or the hour of \<open>now\<close>
  differs from that of \<open>stime\<close>, rotate to slot 0 (before any look at the size);
  else \<open>nbytes \<ge> MaxSize\<close>, rotate to \<open>slot + 1\<close>; otherwise nothing is rotated and
  the stream and the world are returned as they were, with a nil error.
\<close>

theorem checkRotate_case_order:
  "checkRotate sb now w =
     (if file_p sb = None then rotateFile sb now 0 w
      else if (Date now, hour now) \<noteq> (Date (stime sb), hour (stime sb)) then rotateFile sb now 0 w
      else if MaxSize \<le> nbytes sb then rotateFile sb now (slot sb + 1) w
      else Ok (None, sb, w))"
  by (auto simp: checkRotate_def Date_def)

theorem checkRotate_case_order_witness:
  "checkRotate ex_stream ex_time ex_world = Ok (None, ex_stream, ex_world) \<and>
   checkRotate ex_stream ex_later ex_world = rotateFile ex_stream ex_later 0 ex_world \<and>
   checkRotate (ex_stream\<lparr>nbytes := MaxSize\<rparr>) ex_time ex_world =
     rotateFile (ex_stream\<lparr>nbytes := MaxSize\<rparr>) ex_time 1 ex_world \<and>
   checkRotate (ex_stream\<lparr>nbytes := MaxSize\<rparr>) ex_later ex_world =
     rotateFile (ex_stream\<lparr>nbytes := MaxSize\<rparr>) ex_later 0 ex_world \<and>
   checkRotate (ex_stream\<lparr>file_p := None\<rparr>) ex_time ex_world =
     rotateFile (ex_stream\<lparr>file_p := None\<rparr>) ex_time 0 ex_world"
  using checkRotate_case_order [of ex_stream ex_time ex_world]
    checkRotate_case_order [of ex_stream ex_later ex_world]
    checkRotate_case_order [of "ex_stream\<lparr>nbytes := MaxSize\<rparr>" ex_time ex_world]
    checkRotate_case_order [of "ex_stream\<lparr>nbytes := MaxSize\<rparr>" ex_later ex_world]
    checkRotate_case_order [of "ex_stream\<lparr>file_p := None\<rparr>" ex_time ex_world]
  by (simp add: ex_stream_def ex_time_def ex_later_def Date_def MaxSize_def)

section \<open>C3: the rotation procedure on a stream with an open file\<close>






section \<open>C5: one newline ends the line\<close>

text \<open>
  C5, as amended.  For every message, \<^verbatim>\<open>write\<close> assembles a line and the line ends
  in a newline.  A message that already ends in a newline is used as it is (no
  further newline is added); to any other message, the empty one too, exactly one
  newline is appended.  Only the last byte is tested and no newline of the caller
  is taken away: the line ends in as many newlines as the message, and in one when
  the message ends in none.
\<close>

theorem assemble_newline:
  "\<exists>line. assemble lv s now ci = Ok line \<and>
      line \<noteq> [] \<and> last line = CHR 0x0A \<and>
      (s \<noteq> [] \<and> last s = CHR 0x0A \<longrightarrow> line = line_prefix lv now ci @ s) \<and>
      (\<not> (s \<noteq> [] \<and> last s = CHR 0x0A) \<longrightarrow> line = line_prefix lv now ci @ s @ [CHR 0x0A]) \<and>
      trailing_newlines line = max 1 (trailing_newlines s)"
proof (cases "s \<noteq> [] \<and> last s = CHR 0x0A")
  case True
  then have "trailing_newlines s \<noteq> 0" by (simp add: trailing_newlines_zero)
  with True show ?thesis
    using line_prefix_last [of lv now ci]
    by (simp add: assemble_eq trailing_newlines_prefix)
next
  case False
  then have z: "trailing_newlines s = 0" by (simp add: trailing_newlines_zero)
  have "trailing_newlines (line_prefix lv now ci @ s @ [CHR 0x0A]) = Suc (trailing_newlines s)"
    using line_prefix_last [of lv now ci] trailing_newlines_prefix [of "line_prefix lv now ci" "s @ [CHR 0x0A]"]
    by (simp add: trailing_newlines_snoc)
  with False z show ?thesis
    by (simp add: assemble_eq)
qed

theorem assemble_newline_witness:
  "assemble LevelInfo ''hello'' ex_time ex_caller =
     Ok ''2026-10-30 07:05:09.12 reqid-17 main.go 42 : hello\<newline>'' \<and>
   assemble LevelInfo ''hello\<newline>'' ex_time ex_caller =
     Ok ''2026-10-30 07:05:09.12 reqid-17 main.go 42 : hello\<newline>'' \<and>
   assemble LevelInfo [] ex_time ex_caller =
     Ok ''2026-10-30 07:05:09.12 reqid-17 main.go 42 : \<newline>''"
  using assemble_newline [of LevelInfo "''hello''" ex_time ex_caller]
    assemble_newline [of LevelInfo "''hello\<newline>''" ex_time ex_caller]
    assemble_newline [of LevelInfo "[]" ex_time ex_caller]
  by (simp add: line_prefix_def ex_format_ts ex_GetPrefix Level_defs)

text \<open>
  The claim as stated fails: a message that ends in two newlines gives a line
  that ends in two.
\<close>

theorem assemble_two_newlines:
  "assemble LevelInfo ''hello\<newline>\<newline>'' ex_time ex_caller =
     Ok ''2026-10-30 07:05:09.12 reqid-17 main.go 42 : hello\<newline>\<newline>'' \<and>
   trailing_newlines ''2026-10-30 07:05:09.12 reqid-17 main.go 42 : hello\<newline>\<newline>'' = 2"
  by (simp add: assemble_eq line_prefix_def ex_format_ts ex_GetPrefix Level_defs trailing_newlines_def)


section \<open>C6: the timestamp and the action level\<close>

text \<open>
  C6.  For every call of \<^verbatim>\<open>write\<close>, the assembled line begins with the formatted
  timestamp exactly when the level is not \<^verbatim>\<open>LevelAction\<close>: a line of the action
  level begins with the caller prefix, every other line with the timestamp and
  then the caller prefix.  The line depends on nothing but the level, the
  message, the time and the caller.
\<close>

theorem assemble_timestamp:
  "\<exists>line. assemble lv s now ci = Ok line \<and>
      ((\<exists>rest. line = format_ts now @ rest) \<longleftrightarrow> lv \<noteq> LevelAction) \<and>
      (lv = LevelAction \<longrightarrow> (\<exists>rest. line = GetPrefix ci @ rest)) \<and>
      (lv \<noteq> LevelAction \<longrightarrow> (\<exists>rest. line = format_ts now @ GetPrefix ci @ rest))"
proof -
  from format_ts_head [of now] obtain c cs where
    ts: "format_ts now = c # cs" "c \<in> set ''-0123456789''" by blast
  from GetPrefix_head [of ci] obtain gs where gp: "GetPrefix ci = CHR ''r'' # gs" by blast
  from ts have "c \<noteq> CHR ''r''" by auto
  with ts gp show ?thesis
    by (auto simp: assemble_eq line_prefix_def)
qed


theorem assemble_timestamp_witness:
  "assemble LevelError ''disk full'' ex_time ex_caller =
     Ok ''2026-10-30 07:05:09.12 reqid-17 main.go 42 : disk full\<newline>'' \<and>
   assemble LevelAction ''{\"a\":1}'' ex_time ex_caller =
     Ok ''reqid-17 main.go 42 : {\"a\":1}\<newline>''"
  using assemble_timestamp [of LevelError "''disk full''" ex_time ex_caller]
    assemble_timestamp [of LevelAction "''{\"a\":1}''" ex_time ex_caller]
  by (simp add: assemble_eq line_prefix_def ex_format_ts ex_GetPrefix Level_defs)

section \<open>C2: a failed creation drops the record and is tried again\<close>

text \<open>
  C2.  Take a call of \<^verbatim>\<open>write\<close> on a well-formed writer, for one of the six
  levels, whose rotation check returns an error.  That error is one of the two
  errors of \<^verbatim>\<open>createFile\<close> (the directory or the file could not be made).  The
  call returns normally; the line is given to no writer (the world is the one the
  check left, with one more console line, and the stream is the one the check
  left, equal to the old stream but for its buffered writer); the console line is
  \<^verbatim>\<open>[logtool] check rotate err: \<close> followed by the error; a file the stream had is
  closed.  At every later time of the same date and hour as the failed call, in
  any world, the check of that stream calls \<^verbatim>\<open>rotateFile\<close> again, which returns
  without a panic after calling \<^verbatim>\<open>MkdirAll\<close> (and \<^verbatim>\<open>OpenFile\<close> when that succeeds),
  makes no system call on the old file when that is closed, and on success leaves
  the stream on a newly opened file with a new writer.
\<close>

theorem write_create_failure:
  assumes "wf_writer fl" and "unat lv < 6"
    and "checkRotate (get_writer fl lv) now w = Ok (Some e, sb1, w1)"
  shows "write_fl fl lv s now ci w =
           Ok (fl\<lparr>writers := (writers fl)(unat lv \<mapsto> sb1)\<rparr>,
               Println (''[logtool] check rotate err: '' @ e) w1) \<and>
         console (Println (''[logtool] check rotate err: '' @ e) w1) =
           console w @ [''[logtool] check rotate err: '' @ e] \<and>
         create_error e \<and>
         (\<exists>bo. sb1 = (get_writer fl lv)\<lparr>Writer := bo\<rparr>) \<and>
         (\<forall>f. file_p sb1 = Some f \<and> f < length (fobjs w) \<longrightarrow> \<not> is_open w1 f) \<and>
         (\<forall>now2 w2. Date now2 = Date now \<and> hour now2 = hour now \<longrightarrow>
            (\<exists>sl e2 sb2 w3 evs rest.
               checkRotate sb1 now2 w2 = rotateFile sb1 now2 sl w2 \<and>
               rotateFile sb1 now2 sl w2 = Ok (e2, sb2, w3) \<and>
               trace w3 = trace w2 @ evs @ rest \<and>
               rest \<in> create_events (logDir_of (basePath sb1) (logName sb1) now2)
                        (logPath_of (basePath sb1) (logName sb1) (level sb1) sl now2) \<and>
               (\<forall>f. file_p sb1 = Some f \<and> \<not> is_open w2 f \<longrightarrow> evs = []) \<and>
               (file_p sb1 = None \<longrightarrow> evs = []) \<and>
               (e2 = None \<longrightarrow>
                  file_p sb2 = Some (length (fobjs w2)) \<and> is_open w3 (length (fobjs w2)) \<and>
                  Writer sb2 = Some (NewWriterSize (length (fobjs w2)) bufferSize))))"
proof -
  let ?sb = "get_writer fl lv"
  from get_writer_wf [OF assms(1,2)] have wf0: "wf_stream ?sb" by simp
  obtain line where a: "assemble lv s now ci = Ok line" using assemble_ok by blast
  from checkRotate_failed [OF assms(3)] obtain sl where
    rf: "rotateFile ?sb now sl w = Ok (Some e, sb1, w1)"
    and again: "\<And>sb2 now2 w2.
              file_p sb2 = file_p ?sb \<and> stime sb2 = stime ?sb \<and> nbytes sb2 = nbytes ?sb \<and>
              slot sb2 = slot ?sb \<and> Date now2 = Date now \<and> hour now2 = hour now \<Longrightarrow>
              checkRotate sb2 now2 w2 = rotateFile sb2 now2 sl w2"
    by blast
  from rotateFile_wf [OF wf0, of now sl w] rf
  obtain bo where wf1: "wf_stream sb1" and con: "console w1 = console w"
    and sb1: "sb1 = ?sb\<lparr>Writer := bo\<rparr>" and ce: "create_error e"
    and cl: "\<forall>f. file_p ?sb = Some f \<and> f < length (fobjs w) \<longrightarrow> \<not> is_open w1 f"
    by auto
  have 1: "write_fl fl lv s now ci w =
           Ok (fl\<lparr>writers := (writers fl)(unat lv \<mapsto> sb1)\<rparr>,
               Println (''[logtool] check rotate err: '' @ e) w1)"
    using a assms(2,3) by (simp add: write_fl_def)
  have 2: "console (Println (''[logtool] check rotate err: '' @ e) w1) =
           console w @ [''[logtool] check rotate err: '' @ e]"
    using con by (simp add: Println_def)
  have 4: "\<exists>bo. sb1 = ?sb\<lparr>Writer := bo\<rparr>" using sb1 by (rule exI)
  have 5: "\<forall>f. file_p sb1 = Some f \<and> f < length (fobjs w) \<longrightarrow> \<not> is_open w1 f"
    using cl sb1 by simp
  have 6: "\<exists>sl e2 sb2 w3 evs rest.
               checkRotate sb1 now2 w2 = rotateFile sb1 now2 sl w2 \<and>
               rotateFile sb1 now2 sl w2 = Ok (e2, sb2, w3) \<and>
               trace w3 = trace w2 @ evs @ rest \<and>
               rest \<in> create_events (logDir_of (basePath sb1) (logName sb1) now2)
                        (logPath_of (basePath sb1) (logName sb1) (level sb1) sl now2) \<and>
               (\<forall>f. file_p sb1 = Some f \<and> \<not> is_open w2 f \<longrightarrow> evs = []) \<and>
               (file_p sb1 = None \<longrightarrow> evs = []) \<and>
               (e2 = None \<longrightarrow>
                  file_p sb2 = Some (length (fobjs w2)) \<and> is_open w3 (length (fobjs w2)) \<and>
                  Writer sb2 = Some (NewWriterSize (length (fobjs w2)) bufferSize))"
    if same: "Date now2 = Date now \<and> hour now2 = hour now" for now2 w2
  proof -
    have c: "checkRotate sb1 now2 w2 = rotateFile sb1 now2 sl w2"
      by (rule again) (simp add: sb1 same)
    from rotateFile_wf [OF wf1, of now2 sl w2] obtain e2 sb2 w3 evs rest where
      r: "rotateFile sb1 now2 sl w2 = Ok (e2, sb2, w3)"
      "trace w3 = trace w2 @ evs @ rest"
      "rest \<in> create_events (logDir_of (basePath sb1) (logName sb1) now2)
                        (logPath_of (basePath sb1) (logName sb1) (level sb1) sl now2)"
      "file_p sb1 = None \<longrightarrow> evs = []"
      "\<forall>f. file_p sb1 = Some f \<and> \<not> is_open w2 f \<longrightarrow> evs = []"
      and last: "case e2 of
              Some m \<Rightarrow> (\<exists>bo. sb2 = sb1\<lparr>Writer := bo\<rparr>) \<and> length (fobjs w3) = length (fobjs w2) \<and>
                create_error m
            | None \<Rightarrow>
                file_p sb2 = Some (length (fobjs w2)) \<and> is_open w3 (length (fobjs w2)) \<and>
                nbytes sb2 = 0 \<and> stime sb2 = now2 \<and> slot sb2 = sl \<and>
                Writer sb2 = Some (NewWriterSize (length (fobjs w2)) bufferSize)"
      by (elim exE conjE) (rule that)
    from last have "e2 = None \<longrightarrow>
                  file_p sb2 = Some (length (fobjs w2)) \<and> is_open w3 (length (fobjs w2)) \<and>
                  Writer sb2 = Some (NewWriterSize (length (fobjs w2)) bufferSize)"
      by (cases e2) simp_all
    with c r show ?thesis
      by (intro exI [of _ sl] exI [of _ e2] exI [of _ sb2] exI [of _ w3] exI [of _ evs] exI [of _ rest])
        simp
  qed
  from 1 2 ce 4 5 6 show ?thesis by blast
qed


lemma ex_check_failed:
  "checkRotate (get_writer (newFileLog ''app'' ''/data'') LevelInfo) ex_time ex_fault_world =
     Ok (Some ''logtool: cannot create log: permission denied'', ex_new_stream,
         ex_fault_world\<lparr>trace := [EMkdirAll ''/data/logs/app/202610/30'' False]\<rparr>)"
  by (simp add: checkRotate_cases get_writer_def newFileLog_def rotateFile_def close_current_def
      createFile_def os_MkdirAll_def fault_now_def log_event_def ex_logDir ex_new_stream_def
      ex_fault_world_def)

theorem write_create_failure_witness:
  "wf_writer (newFileLog ''app'' ''/data'') \<and> unat LevelInfo < 6 \<and>
   checkRotate (get_writer (newFileLog ''app'' ''/data'') LevelInfo) ex_time ex_fault_world =
     Ok (Some ''logtool: cannot create log: permission denied'', ex_new_stream,
         ex_fault_world\<lparr>trace := [EMkdirAll ''/data/logs/app/202610/30'' False]\<rparr>) \<and>
   console_after (write_fl (newFileLog ''app'' ''/data'') LevelInfo ''hello'' ex_time ex_caller ex_fault_world) =
     Some [''[logtool] check rotate err: logtool: cannot create log: permission denied''] \<and>
   trace_after (write_fl (newFileLog ''app'' ''/data'') LevelInfo ''hello'' ex_time ex_caller ex_fault_world) =
     Some [EMkdirAll ''/data/logs/app/202610/30'' False]"
proof -
  have h1: "wf_writer (newFileLog ''app'' ''/data'')" by (rule wf_writer_new)
  have h2: "unat LevelInfo < 6" by (simp add: LevelInfo_def)
  note h3 = ex_check_failed
  from write_create_failure [OF h1 h2 h3, of "''hello''" ex_caller]
  have "write_fl (newFileLog ''app'' ''/data'') LevelInfo ''hello'' ex_time ex_caller ex_fault_world =
      Ok ((newFileLog ''app'' ''/data'')\<lparr>writers :=
             (writers (newFileLog ''app'' ''/data''))(unat LevelInfo \<mapsto> ex_new_stream)\<rparr>,
          Println (''[logtool] check rotate err: '' @ ''logtool: cannot create log: permission denied'')
            (ex_fault_world\<lparr>trace := [EMkdirAll ''/data/logs/app/202610/30'' False]\<rparr>))"
    by (rule conjunct1)
  then show ?thesis using h1 h2 h3
    by (simp add: console_after_def trace_after_def Println_def ex_fault_world_def)
qed

section \<open>C10: the index into the array of streams\<close>

text \<open>
  C10.  For a level below 6 and a well-formed writer, \<^verbatim>\<open>write\<close> returns without a
  panic: the stream of the level is looked up, created when absent, and stored at
  the index of the level, and the writer stays well formed.  For a level of 6 or
  more, \<^verbatim>\<open>w.writers[level]\<close> is out of range and \<^verbatim>\<open>write\<close> panics.  The writer made
  by \<^verbatim>\<open>newFileLog\<close> is well formed.
\<close>

theorem write_index_in_bounds:
  "(unat lv < 6 \<and> wf_writer fl \<longrightarrow>
      (\<exists>fl' w' sb. write_fl fl lv s now ci w = Ok (fl', w') \<and> wf_writer fl' \<and>
          fl' = fl\<lparr>writers := (writers fl)(unat lv \<mapsto> sb)\<rparr> \<and> level sb = lv)) \<and>
   (\<not> unat lv < 6 \<longrightarrow> write_fl fl lv s now ci w = Panic ''index out of range'') \<and>
   wf_writer (newFileLog ln bp)"
proof (intro conjI impI)
  assume "unat lv < 6 \<and> wf_writer fl"
  then show "\<exists>fl' w' sb. write_fl fl lv s now ci w = Ok (fl', w') \<and> wf_writer fl' \<and>
          fl' = fl\<lparr>writers := (writers fl)(unat lv \<mapsto> sb)\<rparr> \<and> level sb = lv"
    using write_fl_ok [of fl lv s now ci w] by blast
next
  assume "\<not> unat lv < 6"
  then show "write_fl fl lv s now ci w = Panic ''index out of range''"
    using assemble_ok [of lv s now ci] by (auto simp: write_fl_def)
next
  show "wf_writer (newFileLog ln bp)" by (rule wf_writer_new)
qed


theorem write_index_in_bounds_witness:
  "unat LevelInfo < 6 \<and> wf_writer (newFileLog ''app'' ''/data'') \<and>
   (\<exists>fl' w' sb. write_fl (newFileLog ''app'' ''/data'') LevelInfo ''hello'' ex_time ex_caller ex_fault_world = Ok (fl', w') \<and>
       wf_writer fl' \<and>
       fl' = (newFileLog ''app'' ''/data'')\<lparr>writers := (writers (newFileLog ''app'' ''/data''))(unat LevelInfo \<mapsto> sb)\<rparr> \<and>
       level sb = LevelInfo) \<and>
   \<not> unat (6 :: Level) < 6 \<and>
   write_fl (newFileLog ''app'' ''/data'') 6 ''hello'' ex_time ex_caller ex_fault_world =
     Panic ''index out of range''"
proof -
  have h1: "wf_writer (newFileLog ''app'' ''/data'')" by (rule wf_writer_new)
  have h2: "unat LevelInfo < 6" by (simp add: LevelInfo_def)
  have h3: "\<not> unat (6 :: Level) < 6" by simp
  from write_index_in_bounds [of LevelInfo "newFileLog ''app'' ''/data''" "''hello''" ex_time ex_caller
      ex_fault_world "''app''" "''/data''"]
    write_index_in_bounds [of 6 "newFileLog ''app'' ''/data''" "''hello''" ex_time ex_caller
      ex_fault_world "''app''" "''/data''"]
    h1 h2 h3
  show ?thesis by blast
qed

section \<open>The flush loop\<close>








section \<open>C7: flushAll\<close>





section \<open>C8: the free list of buffers\<close>

text \<open>
  C8, as amended.  \<^verbatim>\<open>getBuffer\<close> returns an empty buffer: the first buffer of the
  free list, reset (its capacity kept), or a new zero buffer when the list is
  empty.  \<^verbatim>\<open>putBuffer\<close> puts the buffer on the free list exactly when its length
  \<^verbatim>\<open>Len()\<close> is below 256 and drops it otherwise; the capacity is not looked at.  So
  a free list whose buffers are all shorter than 256 bytes stays so.
\<close>

theorem buffer_pool_by_length:
  "buffer_Len (fst (getBuffer fl)) = 0 \<and>
   (freeList fl = [] \<longrightarrow> getBuffer fl = (new_buffer, fl)) \<and>
   (\<forall>b rest. freeList fl = b # rest \<longrightarrow>
      getBuffer fl = (b\<lparr>b_bytes := []\<rparr>, fl\<lparr>freeList := rest\<rparr>)) \<and>
   (buffer_Len b < 256 \<longrightarrow> putBuffer fl b = fl\<lparr>freeList := b # freeList fl\<rparr>) \<and>
   (\<not> buffer_Len b < 256 \<longrightarrow> putBuffer fl b = fl) \<and>
   (pool_small fl \<longrightarrow> pool_small (putBuffer fl b) \<and> pool_small (snd (getBuffer fl)))"
  by (auto simp: getBuffer_def putBuffer_def buffer_Len_def buffer_Reset_def new_buffer_def
      pool_small_def split: list.splits)

theorem buffer_pool_by_length_witness:
  "freeList (newFileLog ''app'' ''/data'') = [] \<and>
   getBuffer (newFileLog ''app'' ''/data'') = (new_buffer, newFileLog ''app'' ''/data'') \<and>
   buffer_Len ex_big_buffer < 256 \<and>
   putBuffer (newFileLog ''app'' ''/data'') ex_big_buffer =
     (newFileLog ''app'' ''/data'')\<lparr>freeList := [ex_big_buffer]\<rparr> \<and>
   getBuffer ((newFileLog ''app'' ''/data'')\<lparr>freeList := [ex_big_buffer]\<rparr>) =
     (\<lparr>b_bytes = [], b_cap = 512\<rparr>, newFileLog ''app'' ''/data'') \<and>
   \<not> buffer_Len \<lparr>b_bytes = replicate 256 CHR ''x'', b_cap = 256\<rparr> < 256 \<and>
   putBuffer (newFileLog ''app'' ''/data'') \<lparr>b_bytes = replicate 256 CHR ''x'', b_cap = 256\<rparr> =
     newFileLog ''app'' ''/data'' \<and>
   pool_small (newFileLog ''app'' ''/data'') \<and>
   pool_small (putBuffer (newFileLog ''app'' ''/data'') ex_big_buffer)"
  using buffer_pool_by_length [of "newFileLog ''app'' ''/data''" ex_big_buffer]
    buffer_pool_by_length [of "(newFileLog ''app'' ''/data'')\<lparr>freeList := [ex_big_buffer]\<rparr>" ex_big_buffer]
    buffer_pool_by_length [of "newFileLog ''app'' ''/data''" "\<lparr>b_bytes = replicate 256 CHR ''x'', b_cap = 256\<rparr>"]
  by (simp add: newFileLog_def ex_big_buffer_def buffer_Len_def pool_small_def)

text \<open>
  The claim as stated fails: a buffer of capacity 512 that holds two bytes is kept.
\<close>

theorem putBuffer_keeps_large_capacity:
  "\<not> buffer_Cap ex_big_buffer < 256 \<and>
   freeList (putBuffer (newFileLog ''app'' ''/data'') ex_big_buffer) = [ex_big_buffer]"
  by (simp add: putBuffer_def newFileLog_def ex_big_buffer_def buffer_Cap_def buffer_Len_def)

section \<open>C9: invalid configuration\<close>

lemma Level_Set_values:
  "Level_Set l ''debug'' = (None, LevelDebug)"
  "Level_Set l ''info'' = (None, LevelInfo)"
  "Level_Set l ''warn'' = (None, LevelWarn)"
  "Level_Set l ''error'' = (None, LevelError)"
  "Level_Set l ''action'' = (None, LevelAction)"
  "Level_Set l ''output'' = (Some ''invaild level'', l)"
  by (simp_all add: Level_Set_def levelName_def Level_defs)

lemma Level_Set_other:
  "s \<notin> {''debug'', ''info'', ''warn'', ''error'', ''action''} \<Longrightarrow>
     Level_Set l s = (Some ''invaild level'', l)"
  by (auto simp: Level_Set_def levelName_def Level_defs)

lemma initWriter_wf: "wf_globals g \<Longrightarrow> wf_globals (initWriter g) \<and> logWriter (initWriter g) \<noteq> None"
  by (auto simp: initWriter_def wf_globals_def Let_def wf_writer_new)

lemma write_pkg_ok:
  assumes "wf_globals g" "unat lv < 6"
  shows "\<exists>g' w'. write_pkg lv msg rd g w = Ok (g', w') \<and> wf_globals g'"
proof (cases "inited g")
  case False
  with assms levelName_at_ok [OF assms(2)] show ?thesis
    by (auto simp: write_pkg_def)
next
  case True
  define g1 where "g1 = (if logWriter g = None then initWriter g else g)"
  from assms(1) initWriter_wf [OF assms(1)] obtain fl where
    fl: "logWriter g1 = Some fl" "wf_writer fl"
    by (cases "logWriter g") (auto simp: g1_def wf_globals_def split: option.splits)
  from write_fl_ok [OF fl(2) assms(2), of msg "r_wnow rd" "r_wcaller rd" w] obtain fl1 w1 where
    wr: "write_fl fl lv msg (r_wnow rd) (r_wcaller rd) w = Ok (fl1, w1)" "wf_writer fl1" by blast
  from levelName_at_ok [OF assms(2)] obtain name where nm: "levelName_at lv = Ok name" by blast
  have "write_pkg lv msg rd g w =
      (if alsoStdout g1
       then Ok (g1\<lparr>logWriter := Some fl1\<rparr>,
                Println (format_sec (r_now rd) @ '' ['' @ name @ ''] '' @ msg) w1)
       else Ok (g1\<lparr>logWriter := Some fl1\<rparr>, w1))"
    using True fl wr nm by (simp add: write_pkg_def g1_def [symmetric] Let_def)
  with wr(2) show ?thesis by (simp add: wf_globals_def)
qed

lemma write_pkg_out_of_range:
  assumes "\<not> unat lv < 6"
  shows "write_pkg lv msg rd g w = Panic ''index out of range''"
proof (cases "inited g")
  case False
  with assms show ?thesis by (simp add: write_pkg_def levelName_at_def levelName_def)
next
  case True
  define g1 where "g1 = (if logWriter g = None then initWriter g else g)"
  obtain fl where fl: "logWriter g1 = Some fl"
    by (cases "logWriter g") (auto simp: g1_def initWriter_def Let_def)
  obtain line where a: "assemble lv msg (r_wnow rd) (r_wcaller rd) = Ok line"
    using assemble_ok by blast
  have "write_fl fl lv msg (r_wnow rd) (r_wcaller rd) w = Panic ''index out of range''"
    using assms a by (simp add: write_fl_def)
  with True fl show ?thesis by (simp add: write_pkg_def g1_def [symmetric] Let_def)
qed

lemma LogWriter_marker_level:
  "unat (lw_level this) < 6 \<Longrightarrow> unat (fst (LogWriter_marker this data)) < 6"
  by (simp add: LogWriter_marker_def Level_defs)

lemma LogWriter_marker_high:
  "\<not> unat (lw_level this) < 6 \<Longrightarrow> LogWriter_marker this data = (lw_level this, data)"
  by (auto simp: LogWriter_marker_def Level_defs)

lemma LogWriter_Write_ok:
  assumes "wf_globals g" "unat (lw_level this) < 6"
  shows "\<exists>n g' w'. LogWriter_Write this data rd g w = Ok (n, g', w') \<and> wf_globals g'"
proof -
  obtain l data1 where m: "LogWriter_marker this data = (l, data1)" by (metis prod.exhaust)
  with LogWriter_marker_level [OF assms(2), of data] have l: "unat l < 6" by simp
  from write_pkg_ok [OF assms(1) l, of data1 rd w] obtain g' w' where
    "write_pkg l data1 rd g w = Ok (g', w')" "wf_globals g'" by blast
  with m assms(1) show ?thesis by (auto simp: LogWriter_Write_def)
qed

lemma Action_ok:
  assumes "wf_globals g"
  shows "\<exists>e g' w'. Action m rd g w = Ok (e, g', w') \<and> wf_globals g'"
proof (cases m)
  case (Inl e)
  with assms show ?thesis by (simp add: Action_def)
next
  case (Inr str)
  have "unat LevelAction < 6" by (simp add: LevelAction_def)
  from write_pkg_ok [OF assms this, of str rd w] Inr show ?thesis by (auto simp: Action_def)
qed

text \<open>
  C9, as amended.  \<^verbatim>\<open>SetName\<close> panics on the empty name and stores any other;
  \<^verbatim>\<open>SetLevel\<close> panics on a level below \<^verbatim>\<open>LevelDebug\<close> or above \<^verbatim>\<open>LevelError\<close> and
  stores any other; \<^verbatim>\<open>Level.Set\<close> stores the level of the names debug, info, warn,
  error and action and returns an error, leaving the level alone, for every other
  string, the reserved name output among them.  Whatever the configuration
  variables hold, \<^verbatim>\<open>Debug\<close>, \<^verbatim>\<open>Info\<close>, \<^verbatim>\<open>Warn\<close>, \<^verbatim>\<open>Error\<close> and \<^verbatim>\<open>Action\<close> return
  without a panic, and so does \<^verbatim>\<open>Write\<close> on a \<^verbatim>\<open>LogWriter\<close> of one of the six
  levels.  The level given to \<^verbatim>\<open>NewLogWriter\<close> is not checked: on a \<^verbatim>\<open>LogWriter\<close>
  of a level of 6 or more, \<^verbatim>\<open>Write\<close> panics whenever the level in force lets the
  record through.
\<close>

theorem invalid_configuration:
  "SetName [] g = Panic ''invalid log name'' \<and>
   (name \<noteq> [] \<longrightarrow> SetName name g = Ok (g\<lparr>cfg_logName := name\<rparr>)) \<and>
   (lv < LevelDebug \<or> LevelError < lv \<longrightarrow> SetLevel lv g = Panic ''invalid log level'') \<and>
   (LevelDebug \<le> lv \<and> lv \<le> LevelError \<longrightarrow> SetLevel lv g = Ok (g\<lparr>logLevel := lv\<rparr>)) \<and>
   Level_Set l ''debug'' = (None, LevelDebug) \<and>
   Level_Set l ''info'' = (None, LevelInfo) \<and>
   Level_Set l ''warn'' = (None, LevelWarn) \<and>
   Level_Set l ''error'' = (None, LevelError) \<and>
   Level_Set l ''action'' = (None, LevelAction) \<and>
   (s \<notin> {''debug'', ''info'', ''warn'', ''error'', ''action''} \<longrightarrow>
      Level_Set l s = (Some ''invaild level'', l)) \<and>
   Level_Set l ''output'' = (Some ''invaild level'', l) \<and>
   (wf_globals g \<longrightarrow>
      (\<exists>g' w'. Debug str rd g w = Ok (g', w') \<and> wf_globals g') \<and>
      (\<exists>g' w'. Info str rd g w = Ok (g', w') \<and> wf_globals g') \<and>
      (\<exists>g' w'. Warn str rd g w = Ok (g', w') \<and> wf_globals g') \<and>
      (\<exists>g' w'. Error str rd g w = Ok (g', w') \<and> wf_globals g') \<and>
      (\<exists>e g' w'. Action m rd g w = Ok (e, g', w') \<and> wf_globals g') \<and>
      (unat k < 6 \<longrightarrow>
         (\<exists>n g' w'. LogWriter_Write (NewLogWriter k) str rd g w = Ok (n, g', w') \<and> wf_globals g'))) \<and>
   (\<not> unat k < 6 \<and> level_of g \<le> k \<longrightarrow>
      LogWriter_Write (NewLogWriter k) str rd g w = Panic ''index out of range'') \<and>
   wf_globals initial_globals"
proof -
  have a: "SetName [] g = Panic ''invalid log name''"
    "name \<noteq> [] \<longrightarrow> SetName name g = Ok (g\<lparr>cfg_logName := name\<rparr>)"
    by (simp_all add: SetName_def)
  have b: "lv < LevelDebug \<or> LevelError < lv \<longrightarrow> SetLevel lv g = Panic ''invalid log level''"
    "LevelDebug \<le> lv \<and> lv \<le> LevelError \<longrightarrow> SetLevel lv g = Ok (g\<lparr>logLevel := lv\<rparr>)"
    by (auto simp: SetLevel_def)
  have c: "s \<notin> {''debug'', ''info'', ''warn'', ''error'', ''action''} \<longrightarrow>
      Level_Set l s = (Some ''invaild level'', l)"
    using Level_Set_other [of s l] by blast
  have d: "\<exists>g' w'. Debug str rd g w = Ok (g', w') \<and> wf_globals g'"
    "\<exists>g' w'. Info str rd g w = Ok (g', w') \<and> wf_globals g'"
    "\<exists>g' w'. Warn str rd g w = Ok (g', w') \<and> wf_globals g'"
    "\<exists>g' w'. Error str rd g w = Ok (g', w') \<and> wf_globals g'" if wf: "wf_globals g"
    using write_pkg_ok [OF wf, of LevelDebug str rd w] write_pkg_ok [OF wf, of LevelInfo str rd w]
      write_pkg_ok [OF wf, of LevelWarn str rd w] write_pkg_ok [OF wf, of LevelError str rd w] wf
    by (auto simp: Debug_def Info_def Warn_def Error_def Level_defs)
  have d2: "\<exists>e g' w'. Action m rd g w = Ok (e, g', w') \<and> wf_globals g'" if wf: "wf_globals g"
    by (rule Action_ok [OF wf])
  have d3: "unat k < 6 \<longrightarrow>
         (\<exists>n g' w'. LogWriter_Write (NewLogWriter k) str rd g w = Ok (n, g', w') \<and> wf_globals g')"
    if wf: "wf_globals g"
    using LogWriter_Write_ok [OF wf, of "NewLogWriter k" str rd w] by (simp add: NewLogWriter_def)
  have f: "LogWriter_Write (NewLogWriter k) str rd g w = Panic ''index out of range''"
    if "\<not> unat k < 6 \<and> level_of g \<le> k"
    using that LogWriter_marker_high [of "NewLogWriter k" str] write_pkg_out_of_range [of k str rd g w]
    by (simp add: LogWriter_Write_def NewLogWriter_def)
  have e: "wf_globals initial_globals" by (simp add: wf_globals_def initial_globals_def)
  from a b c d d2 d3 e f Level_Set_values [of l] show ?thesis by blast
qed

theorem invalid_configuration_witness:
  "SetName [] initial_globals = Panic ''invalid log name'' \<and>
   ''app'' \<noteq> [] \<and>
   SetName ''app'' initial_globals = Ok (initial_globals\<lparr>cfg_logName := ''app''\<rparr>) \<and>
   levelDefault < LevelDebug \<and> SetLevel levelDefault initial_globals = Panic ''invalid log level'' \<and>
   LevelError < LevelAction \<and> SetLevel LevelAction initial_globals = Panic ''invalid log level'' \<and>
   LevelDebug \<le> LevelWarn \<and> LevelWarn \<le> LevelError \<and>
   SetLevel LevelWarn initial_globals = Ok (initial_globals\<lparr>logLevel := LevelWarn\<rparr>) \<and>
   ''Info'' \<notin> {''debug'', ''info'', ''warn'', ''error'', ''action''} \<and>
   Level_Set LevelWarn ''Info'' = (Some ''invaild level'', LevelWarn) \<and>
   wf_globals (initial_globals\<lparr>inited := True\<rparr>) \<and>
   (\<exists>g' w'. Info ''hello'' ex_reads (initial_globals\<lparr>inited := True\<rparr>) ex_fault_world = Ok (g', w') \<and>
      wf_globals g') \<and>
   (\<exists>e g' w'. Action (Inr ''{}'') ex_reads (initial_globals\<lparr>inited := True\<rparr>) ex_fault_world =
      Ok (e, g', w') \<and> wf_globals g') \<and>
   unat LevelAction < 6 \<and>
   (\<exists>n g' w'. LogWriter_Write (NewLogWriter LevelAction) ''hello'' ex_reads
        (initial_globals\<lparr>inited := True\<rparr>) ex_fault_world = Ok (n, g', w') \<and> wf_globals g') \<and>
   \<not> unat (7 :: Level) < 6 \<and> level_of (initial_globals\<lparr>inited := True\<rparr>) \<le> 7 \<and>
   LogWriter_Write (NewLogWriter 7) ''hello'' ex_reads (initial_globals\<lparr>inited := True\<rparr>)
     ex_fault_world = Panic ''index out of range''"
proof -
  have h: "''app'' \<noteq> []" "levelDefault < LevelDebug" "LevelError < LevelAction"
    "LevelDebug \<le> LevelWarn" "LevelWarn \<le> LevelError"
    "''Info'' \<notin> {''debug'', ''info'', ''warn'', ''error'', ''action''}"
    "wf_globals (initial_globals\<lparr>inited := True\<rparr>)"
    "unat LevelAction < 6" "\<not> unat (7 :: Level) < 6"
    "level_of (initial_globals\<lparr>inited := True\<rparr>) \<le> 7"
    by (simp_all add: Level_defs wf_globals_def initial_globals_def level_of_def)
  let ?g = "initial_globals\<lparr>inited := True\<rparr>"
  from invalid_configuration [of initial_globals "''app''" levelDefault LevelWarn "''Info''" "''hello''"
      ex_reads ex_fault_world "Inr ''{}''" LevelAction] h(1,2,6)
  have 1: "SetName [] initial_globals = Panic ''invalid log name''"
    "SetName ''app'' initial_globals = Ok (initial_globals\<lparr>cfg_logName := ''app''\<rparr>)"
    "SetLevel levelDefault initial_globals = Panic ''invalid log level''"
    "Level_Set LevelWarn ''Info'' = (Some ''invaild level'', LevelWarn)"
    by blast+
  from invalid_configuration [of initial_globals "''app''" LevelAction LevelWarn "''Info''" "''hello''"
      ex_reads ex_fault_world "Inr ''{}''" LevelAction] h(3)
  have 2: "SetLevel LevelAction initial_globals = Panic ''invalid log level''"
    by blast
  from invalid_configuration [of initial_globals "''app''" LevelWarn LevelWarn "''Info''" "''hello''"
      ex_reads ex_fault_world "Inr ''{}''" LevelAction] h(4,5)
  have 3: "SetLevel LevelWarn initial_globals = Ok (initial_globals\<lparr>logLevel := LevelWarn\<rparr>)"
    by blast
  from invalid_configuration [of ?g "''app''" LevelWarn LevelWarn
      "''Info''" "''hello''" ex_reads ex_fault_world "Inr ''{}''" LevelAction] h(7,8)
  have 4: "\<exists>g' w'. Info ''hello'' ex_reads ?g ex_fault_world = Ok (g', w') \<and> wf_globals g'"
    "\<exists>e g' w'. Action (Inr ''{}'') ex_reads ?g ex_fault_world = Ok (e, g', w') \<and> wf_globals g'"
    "\<exists>n g' w'. LogWriter_Write (NewLogWriter LevelAction) ''hello'' ex_reads ?g ex_fault_world =
        Ok (n, g', w') \<and> wf_globals g'"
    by blast+
  from invalid_configuration [of ?g "''app''" LevelWarn LevelWarn
      "''Info''" "''hello''" ex_reads ex_fault_world "Inr ''{}''" 7] h(9,10)
  have 5: "LogWriter_Write (NewLogWriter 7) ''hello'' ex_reads ?g ex_fault_world =
      Panic ''index out of range''"
    by blast
  from 1 2 3 4 5 h show ?thesis by simp
qed

text \<open>
  The claim as stated fails: a level out of range that no setter has seen aborts
  the process on the write path.
\<close>

theorem LogWriter_level_not_validated:
  "LogWriter_Write (NewLogWriter 6) ''x'' ex_reads initial_globals ex_fault_world =
     Panic ''index out of range'' \<and>
   LogWriter_Write (NewLogWriter 6) ''x'' ex_reads (initial_globals\<lparr>inited := True\<rparr>) ex_fault_world =
     Panic ''index out of range''"
  by (simp add: LogWriter_Write_def NewLogWriter_def LogWriter_marker_def write_pkg_out_of_range
      level_of_def initial_globals_def Level_defs)

section \<open>Cleaned paths\<close>

lemma split_slash_nonempty: "split_slash p \<noteq> []"
  by (induction p) (auto split: list.splits)

lemma split_slash_append: "split_slash (a @ CHR ''/'' # b) = split_slash a @ split_slash b"
proof (induction a)
  case Nil
  show ?case by simp
next
  case (Cons c cs)
  obtain x xs where x: "split_slash cs = x # xs"
    using split_slash_nonempty [of cs] by (cases "split_slash cs") auto
  with Cons show ?case by simp
qed

lemma split_slash_plain: "CHR ''/'' \<notin> set c \<Longrightarrow> split_slash c = [c]"
  by (induction c) auto

lemma clean_step_empty: "clean_step r out [] = out"
  by (simp add: clean_step_def)

lemma Clean_double_slash: "filepath_Clean (x @ ''//'' @ y) = filepath_Clean (x @ ''/'' @ y)"
proof -
  have h: "hd (x @ ''//'' @ y) = hd (x @ ''/'' @ y)" by (cases x) simp_all
  have "split_slash (x @ ''//'' @ y) = split_slash x @ [] # split_slash y"
    using split_slash_append [of x "CHR ''/'' # y"] split_slash_append [of "[]" y] by simp
  moreover have "split_slash (x @ ''/'' @ y) = split_slash x @ split_slash y"
    using split_slash_append [of x y] by simp
  ultimately have "foldl (clean_step r) [] (split_slash (x @ ''//'' @ y)) =
      foldl (clean_step r) [] (split_slash (x @ ''/'' @ y))" for r
    by (simp add: clean_step_empty)
  with h show ?thesis by (simp add: filepath_Clean_def)
qed

lemma logDir_of_Clean:
  "logDir_of bp ln t = filepath_Clean (bp @ ''/logs/'' @ date_dir ln t @ ''/'')"
proof (cases "HasSuffix bp ''/''")
  case True
  then have "bp = take (length bp - 1) bp @ ''/''"
    by (metis HasSuffix_def append_take_drop_id length_Cons list.size(3) One_nat_def)
  then obtain x where x: "bp = x @ ''/''" ..
  have "logDir_of bp ln t = filepath_Clean (x @ ''/'' @ (''logs/'' @ date_dir ln t @ ''/''))"
    using True by (simp add: logDir_of_def filepath_Join2_def x date_dir_def)
  also have "\<dots> = filepath_Clean (x @ ''//'' @ (''logs/'' @ date_dir ln t @ ''/''))"
    by (rule Clean_double_slash [symmetric])
  finally show ?thesis by (simp add: x)
next
  case False
  then show ?thesis by (simp add: logDir_of_def filepath_Join2_def date_dir_def)
qed

lemma dec_length: "0 < k \<Longrightarrow> n < 10 ^ k \<Longrightarrow> length (dec n) \<le> k"
proof (induction n arbitrary: k rule: dec.induct)
  case (1 n)
  show ?case
  proof (cases "n < 10")
    case True
    with "1.prems" show ?thesis by (subst dec.simps) simp
  next
    case False
    have "k \<noteq> 1" using "1.prems" False by auto
    with "1.prems"(1) obtain j where j: "k = Suc j" "0 < j" by (cases k) auto
    from "1.prems" j have "n div 10 < 10 ^ j" by (simp add: less_mult_imp_div_less mult.commute)
    from "1.IH" [OF False j(2) this] False j show ?thesis by (subst dec.simps) simp
  qed
qed

lemma pad0_length: "length ds \<le> k \<Longrightarrow> length (pad0 k ds) = k"
  by (simp add: pad0_def)

lemma sprintf_0d_length: "0 < k \<Longrightarrow> 0 \<le> x \<Longrightarrow> x < 10 ^ k \<Longrightarrow> length (sprintf_0d k x) = k"
proof -
  assume a: "0 < k" "0 \<le> x" "x < 10 ^ k"
  then have "nat x < 10 ^ k" by (metis nat_less_iff of_nat_numeral of_nat_power)
  from pad0_length [OF dec_length [OF a(1) this]] a(2) show ?thesis by (simp add: sprintf_0d_def)
qed

lemma sprintf_0d_digits: "0 \<le> x \<Longrightarrow> set (sprintf_0d k x) \<subseteq> set ''0123456789''"
  using pad0_digits [OF dec_digits, of k "nat x"] by (simp add: sprintf_0d_def)


lemma split_slash_no_slash: "c \<in> set (split_slash p) \<Longrightarrow> CHR ''/'' \<notin> set c"
proof (induction p arbitrary: c)
  case Nil
  then show ?case by simp
next
  case (Cons a p)
  obtain x xs where x: "split_slash p = x # xs"
    using split_slash_nonempty [of p] by (cases "split_slash p") auto
  with Cons show ?case by (auto split: if_splits)
qed

lemma clean_step_plain: "plain c \<Longrightarrow> clean_step r out c = out @ [c]"
  by (simp add: clean_step_def plain_def)

lemma push_plain: "list_all plain B \<Longrightarrow> foldl (clean_step r) A B = A @ B"
  by (induction B arbitrary: A) (simp_all add: clean_step_plain)

lemma step_ok:
  assumes "CHR ''/'' \<notin> set c" "stack_ok r out"
  shows "stack_ok r (clean_step r out c)"
proof -
  from assms(2) obtain k P where o: "out = replicate k ''..'' @ P" "list_all plain P" "r \<longrightarrow> k = 0"
    unfolding stack_ok_def by blast
  consider (skip) "c = [] \<or> c = ''.''" | (up) "c = ''..''" | (name) "plain c"
    using assms(1) by (auto simp: plain_def)
  then show ?thesis
  proof cases
    case skip
    with assms(2) show ?thesis by (auto simp: clean_step_def)
  next
    case name
    have "out @ [c] = replicate k ''..'' @ (P @ [c])" "list_all plain (P @ [c])"
      using o name by simp_all
    with o(3) have "stack_ok r (out @ [c])" unfolding stack_ok_def by blast
    with name show ?thesis by (simp add: clean_step_plain)
  next
    case up
    show ?thesis
    proof (cases "P = []")
      case True
      with o have l: "out = [] \<or> last out = ''..''" by (cases k) auto
      have "stack_ok r (out @ [''..''])" if "\<not> r"
      proof -
        have "out @ [''..''] = replicate (Suc k) ''..'' @ []"
          using o(1) True by (simp add: replicate_append_same)
        moreover have "list_all plain []" by simp
        ultimately show ?thesis using that unfolding stack_ok_def by blast
      qed
      with l up assms(2) show ?thesis by (auto simp: clean_step_def)
    next
      case False
      then have "last out = last P" "plain (last P)" "out \<noteq> []"
        using o by (auto simp: list_all_iff)
      then have l: "out \<noteq> [] \<and> last out \<noteq> ''..''" by (auto simp: plain_def)
      have "butlast out = replicate k ''..'' @ butlast P" using o(1) False by (simp add: butlast_append)
      moreover have "list_all plain (butlast P)"
        using o(2) by (auto simp: list_all_iff dest: in_set_butlastD)
      ultimately have "stack_ok r (butlast out)" using o(3) unfolding stack_ok_def by blast
      with l up show ?thesis by (simp add: clean_step_def)
    qed
  qed
qed

lemma fold_ok:
  "(\<forall>c \<in> set cs. CHR ''/'' \<notin> set c) \<Longrightarrow> stack_ok r out \<Longrightarrow> stack_ok r (foldl (clean_step r) out cs)"
  by (induction cs arbitrary: out) (simp_all add: step_ok)

lemma stack_ok_Nil: "stack_ok r []"
proof -
  have "[] = replicate 0 ''..'' @ []" "list_all plain []" by simp_all
  then show ?thesis unfolding stack_ok_def by blast
qed

lemma stack_of_path: "stack_ok r (foldl (clean_step r) [] (split_slash p))"
  by (rule fold_ok) (auto dest: split_slash_no_slash simp: stack_ok_Nil)

lemma refold_dots: "\<not> r \<Longrightarrow> foldl (clean_step r) (replicate j ''..'') (replicate k ''..'') = replicate (j + k) ''..''"
proof (induction k arbitrary: j)
  case 0
  show ?case by simp
next
  case (Suc k)
  have "clean_step r (replicate j ''..'') ''..'' = replicate (Suc j) ''..''"
    using Suc.prems by (cases j) (auto simp: clean_step_def replicate_append_same)
  with Suc.IH [OF Suc.prems, of "Suc j"] show ?case by simp
qed

lemma refold: "stack_ok r S \<Longrightarrow> foldl (clean_step r) [] S = S"
proof -
  assume "stack_ok r S"
  then obtain k P where o: "S = replicate k ''..'' @ P" "list_all plain P" "r \<longrightarrow> k = 0"
    unfolding stack_ok_def by blast
  have "foldl (clean_step r) [] (replicate k ''..'') = replicate k ''..''"
  proof (cases r)
    case True
    with o show ?thesis by simp
  next
    case False
    from refold_dots [OF False, of 0 k] show ?thesis by simp
  qed
  with o show ?thesis by (simp add: push_plain)
qed

lemma stack_ok_elem:
  assumes "stack_ok r S" "c \<in> set S"
  shows "c \<noteq> [] \<and> CHR ''/'' \<notin> set c"
proof -
  from assms(1) obtain k P where o: "S = replicate k ''..'' @ P" "list_all plain P"
    unfolding stack_ok_def by blast
  from assms(2) o(1) have "c = ''..'' \<or> c \<in> set P" by auto
  then show ?thesis
  proof
    assume "c = ''..''"
    then show ?thesis by simp
  next
    assume "c \<in> set P"
    with o(2) have "plain c" by (simp add: list_all_iff)
    then show ?thesis by (simp add: plain_def)
  qed
qed

lemma split_join:
  "S \<noteq> [] \<Longrightarrow> (\<forall>c \<in> set S. CHR ''/'' \<notin> set c) \<Longrightarrow> split_slash (join_slash S) = S"
proof (induction S rule: join_slash.induct)
  case 1
  then show ?case by simp
next
  case (2 x)
  then show ?case by (simp add: split_slash_plain)
next
  case (3 x y ys)
  then show ?case using split_slash_append [of x "join_slash (y # ys)"] by (simp add: split_slash_plain)
qed

lemma join_slash_snoc: "S \<noteq> [] \<Longrightarrow> join_slash (S @ T) = join_slash S @ (if T = [] then [] else ''/'' @ join_slash T)"
proof (induction S rule: join_slash.induct)
  case 1
  then show ?case by simp
next
  case (2 x)
  then show ?case by (cases T) simp_all
next
  case (3 x y ys)
  then show ?case by simp
qed

lemma join_slash_hd: "S \<noteq> [] \<Longrightarrow> hd S \<noteq> [] \<Longrightarrow> join_slash S \<noteq> [] \<and> hd (join_slash S) = hd (hd S)"
  by (induction S rule: join_slash.induct) auto

text \<open>A cleaned path with at least one element, extended by plain elements.\<close>

lemma Clean_extend:
  assumes "p \<noteq> []" and S: "S = foldl (clean_step (hd p = CHR ''/'')) [] (split_slash p)" "S \<noteq> []"
    and T: "list_all plain T" "T \<noteq> []"
  shows "filepath_Clean p = (if hd p = CHR ''/'' then ''/'' else []) @ join_slash S"
    and "filepath_Clean (filepath_Clean p @ ''/'' @ join_slash T) = filepath_Clean p @ ''/'' @ join_slash T"
    and "filepath_Clean (p @ ''/'' @ join_slash T @ ''/'') = filepath_Clean p @ ''/'' @ join_slash T"
proof -
  let ?r = "hd p = CHR ''/''"
  let ?R = "(if ?r then ''/'' else [])"
  have ok: "stack_ok ?r S" unfolding S(1) by (rule stack_of_path)
  from stack_ok_elem [OF ok] have el: "\<forall>c \<in> set S. c \<noteq> [] \<and> CHR ''/'' \<notin> set c" by blast
  with S(2) have hdS: "hd S \<noteq> []" "CHR ''/'' \<notin> set (hd S)" by (cases S; simp)+
  from hdS have "hd (hd S) \<noteq> CHR ''/''" by (cases "hd S") auto
  with join_slash_hd [OF S(2) hdS(1)]
  have j: "join_slash S \<noteq> []" "hd (join_slash S) \<noteq> CHR ''/''"
    by auto
  show C: "filepath_Clean p = ?R @ join_slash S"
    using assms(1) j(1) by (simp add: filepath_Clean_def S(1) [symmetric] Let_def)
  have Tel: "\<forall>c \<in> set T. CHR ''/'' \<notin> set c" using T(1) by (auto simp: list_all_iff plain_def)
  have sT: "split_slash (join_slash T) = T" by (rule split_join [OF T(2) Tel])
  have ST: "join_slash (S @ T) = join_slash S @ ''/'' @ join_slash T"
    using join_slash_snoc [OF S(2), of T] T(2) by simp
  have STne: "join_slash (S @ T) \<noteq> []" using ST j by simp
  text \<open>the cleaned path, extended\<close>
  let ?C = "?R @ join_slash S"
  have hC: "(hd (?C @ ''/'' @ join_slash T) = CHR ''/'') = ?r"
    using j by (cases "join_slash S") auto
  have "split_slash ?C = (if ?r then [[]] else []) @ S"
    using split_join [OF S(2)] el split_slash_append [of "[]" "join_slash S"] by auto
  then have "split_slash (?C @ ''/'' @ join_slash T) = (if ?r then [[]] else []) @ S @ T"
    using split_slash_append [of ?C "join_slash T"] sT by simp
  then have "foldl (clean_step ?r) [] (split_slash (?C @ ''/'' @ join_slash T)) = S @ T"
    using refold [OF ok] T(1) by (auto simp: clean_step_empty push_plain)
  then have "filepath_Clean (?C @ ''/'' @ join_slash T) = ?R @ join_slash (S @ T)"
    using hC STne by (simp add: filepath_Clean_def Let_def)
  then show "filepath_Clean (filepath_Clean p @ ''/'' @ join_slash T) = filepath_Clean p @ ''/'' @ join_slash T"
    unfolding C using ST by simp
  have hp: "(hd (p @ ''/'' @ join_slash T @ ''/'') = CHR ''/'') = ?r"
    using assms(1) by (cases p) auto
  have "split_slash (p @ ''/'' @ join_slash T @ ''/'') = split_slash p @ T @ [[]]"
    using split_slash_append [of p "join_slash T @ ''/''"] split_slash_append [of "join_slash T" "[]"] sT
    by simp
  then have "foldl (clean_step ?r) [] (split_slash (p @ ''/'' @ join_slash T @ ''/'')) = S @ T"
    using T(1) by (simp add: S(1) [symmetric] push_plain clean_step_empty)
  then have "filepath_Clean (p @ ''/'' @ join_slash T @ ''/'') = ?R @ join_slash (S @ T)"
    using hp STne by (simp add: filepath_Clean_def Let_def)
  then show "filepath_Clean (p @ ''/'' @ join_slash T @ ''/'') = filepath_Clean p @ ''/'' @ join_slash T"
    unfolding C using ST by simp
qed


lemma stack_extend:
  assumes "list_all plain T"
  shows "foldl (clean_step r) [] (split_slash (p @ ''/'' @ join_slash T @ ''/'')) =
           foldl (clean_step r) [] (split_slash p) @ T"
proof (cases "T = []")
  case True
  have "split_slash (p @ ''/'' @ ''/'') = split_slash p @ [[], []]"
    using split_slash_append [of p "''/''"] split_slash_append [of "[]" "[]"] by simp
  with True show ?thesis by (simp add: clean_step_empty)
next
  case False
  have Tel: "\<forall>c \<in> set T. CHR ''/'' \<notin> set c" using assms by (auto simp: list_all_iff plain_def)
  have sT: "split_slash (join_slash T) = T" by (rule split_join [OF False Tel])
  have "split_slash (p @ ''/'' @ join_slash T @ ''/'') = split_slash p @ T @ [[]]"
    using split_slash_append [of p "join_slash T @ ''/''"] split_slash_append [of "join_slash T" "[]"] sT
    by simp
  then show ?thesis using assms by (simp add: push_plain clean_step_empty)
qed

lemma digit_safe: "c \<in> set ''0123456789'' \<Longrightarrow> c \<noteq> CHR ''/'' \<and> c \<noteq> CHR ''.''"
  by auto

lemma pathsafe_dec: "pathsafe (dec n)"
  using dec_digits [of n] dec_nonempty [of n] digit_safe
  unfolding pathsafe_def by blast

lemma pathsafe_pad0: "pathsafe ds \<Longrightarrow> pathsafe (pad0 k ds)"
  by (auto simp: pathsafe_def pad0_def)

lemma pathsafe_sprintf_0d: "pathsafe (sprintf_0d k x)"
  using pathsafe_pad0 [OF pathsafe_dec, of k "nat x"] pathsafe_pad0 [OF pathsafe_dec, of "k - 1" "nat (- x)"]
  by (auto simp: sprintf_0d_def pathsafe_def)

lemma pathsafe_sprintf_d: "pathsafe (sprintf_d x)"
  using pathsafe_dec [of "nat x"] pathsafe_dec [of "nat (- x)"]
  by (auto simp: sprintf_d_def pathsafe_def)

lemma pathsafe_plain: "pathsafe c \<Longrightarrow> plain c"
  by (auto simp: pathsafe_def plain_def)

lemma plain_ym: "plain (sprintf_0d 4 y @ sprintf_0d 2 m)"
  using pathsafe_sprintf_0d [of 4 y] pathsafe_sprintf_0d [of 2 m]
  by (intro pathsafe_plain) (simp add: pathsafe_def)

lemma plain_dd: "plain (sprintf_0d 2 d)"
  by (rule pathsafe_plain [OF pathsafe_sprintf_0d])

lemma levelName_no_slash:
  assumes "unat lv < 6"
  shows "CHR ''/'' \<notin> set (levelName ! unat lv)"
proof -
  have a: "\<forall>n \<in> set levelName. CHR ''/'' \<notin> set n" by (simp add: levelName_def)
  have "length levelName = 6" by (simp add: levelName_def)
  with assms have "levelName ! unat lv \<in> set levelName" by (intro nth_mem) simp
  with a show ?thesis by blast
qed

lemma Clean_nonempty: "filepath_Clean p \<noteq> []"
  by (simp add: filepath_Clean_def Let_def)

lemma Clean_stack_empty:
  assumes "p \<noteq> []" "foldl (clean_step (hd p = CHR ''/'')) [] (split_slash p) = []"
  shows "filepath_Clean p = (if hd p = CHR ''/'' then ''/'' else ''.'')"
proof (cases "hd p = CHR ''/''")
  case True
  with assms show ?thesis by (simp add: filepath_Clean_def Let_def)
next
  case False
  with assms show ?thesis by (simp add: filepath_Clean_def Let_def)
qed

lemma plain_logFile:
  assumes "CHR ''/'' \<notin> set name"
  shows "plain (logFile_of name sl t)"
proof -
  have d: "CHR ''/'' \<notin> set (sprintf_0d 2 h)" "CHR ''/'' \<notin> set (sprintf_d x)" for h x
    using pathsafe_sprintf_0d [of 2 h] pathsafe_sprintf_d [of x] by (simp_all add: pathsafe_def)
  have 1: "CHR ''-'' \<in> set (logFile_of name sl t)" by (simp add: logFile_of_def)
  have 2: "CHR ''/'' \<notin> set (logFile_of name sl t)" using assms d by (simp add: logFile_of_def)
  from 1 have 3: "logFile_of name sl t \<noteq> []" "logFile_of name sl t \<noteq> ''.''"
    "logFile_of name sl t \<noteq> ''..''" by auto
  from 2 3 show ?thesis by (simp add: plain_def)
qed

lemma date_dir_join:
  "''logs/'' @ date_dir ln t =
     join_slash [''logs'', ln, sprintf_0d 4 (year t) @ sprintf_0d 2 (int (month t)),
                 sprintf_0d 2 (int (day t))]"
  by (simp add: date_dir_def)

lemma logDir_stack:
  "\<exists>S. S \<noteq> [] \<and> bp @ ''/logs/'' @ date_dir ln t @ ''/'' \<noteq> [] \<and>
       S = foldl (clean_step (hd (bp @ ''/logs/'' @ date_dir ln t @ ''/'') = CHR ''/'')) []
             (split_slash (bp @ ''/logs/'' @ date_dir ln t @ ''/''))"
proof -
  let ?ym = "sprintf_0d 4 (year t) @ sprintf_0d 2 (int (month t))"
  let ?dd = "sprintf_0d 2 (int (day t))"
  have e: "bp @ ''/logs/'' @ date_dir ln t @ ''/'' = (bp @ ''/logs/'' @ ln) @ ''/'' @ join_slash [?ym, ?dd] @ ''/''"
    by (simp add: date_dir_def)
  have "list_all plain [?ym, ?dd]" using plain_ym plain_dd by simp
  from stack_extend [OF this, of _ "bp @ ''/logs/'' @ ln"] show ?thesis
    unfolding e by simp
qed

lemma logPath_of_eq:
  assumes "unat lv < 6"
  shows "logPath_of bp ln lv sl t = logDir_of bp ln t @ ''/'' @ logFile_of (levelName ! unat lv) sl t"
proof -
  let ?Q = "bp @ ''/logs/'' @ date_dir ln t @ ''/''"
  let ?F = "logFile_of (levelName ! unat lv) sl t"
  from logDir_stack [of bp ln t] obtain S where
    S: "S \<noteq> []" "?Q \<noteq> []" "S = foldl (clean_step (hd ?Q = CHR ''/'')) [] (split_slash ?Q)"
    by blast
  have pF: "list_all plain [?F]" using plain_logFile [OF levelName_no_slash [OF assms]] by simp
  have ne: "filepath_Clean ?Q \<noteq> []" by (rule Clean_nonempty)
  from Clean_extend(2) [OF S(2) S(3) S(1) pF]
  have "filepath_Clean (filepath_Clean ?Q @ ''/'' @ ?F) = filepath_Clean ?Q @ ''/'' @ ?F" by simp
  with ne show ?thesis
    by (simp add: logPath_of_def filepath_Join2_def logDir_of_Clean)
qed

lemma logDir_of_literal:
  assumes "filepath_Clean bp = bp" "bp \<noteq> ''.''" "bp \<noteq> ''/''" "plain ln"
  shows "logDir_of bp ln t = bp @ ''/logs/'' @ date_dir ln t"
proof -
  let ?r = "hd bp = CHR ''/''"
  define S where "S = foldl (clean_step ?r) [] (split_slash bp)"
  have ne: "bp \<noteq> []" using assms(1) by (auto simp: filepath_Clean_def)
  have S: "S \<noteq> []"
  proof
    assume "S = []"
    then have "foldl (clean_step ?r) [] (split_slash bp) = []" by (simp add: S_def)
    from Clean_stack_empty [OF ne this] assms(1,2,3) show False by (simp split: if_splits)
  qed
  let ?T = "[''logs'', ln, sprintf_0d 4 (year t) @ sprintf_0d 2 (int (month t)), sprintf_0d 2 (int (day t))]"
  have pl: "plain ''logs''" by (simp add: plain_def)
  have T: "list_all plain ?T" "?T \<noteq> []" using assms(4) plain_ym plain_dd pl by simp_all
  from Clean_extend(3) [OF ne S_def S T]
  have "filepath_Clean (bp @ ''/'' @ join_slash ?T @ ''/'') = bp @ ''/'' @ join_slash ?T"
    using assms(1) by simp
  then show ?thesis by (simp add: logDir_of_Clean date_dir_def)
qed


section \<open>C4: the directory and the file name\<close>

text \<open>
  C4.  For every base path, log name, time and slot and each of the six levels,
  \<^verbatim>\<open>createFile\<close> returns without a panic, calls \<^verbatim>\<open>MkdirAll\<close> on the directory and
  then, if that succeeds, \<^verbatim>\<open>OpenFile\<close> on the directory, a slash and the file name.
  The directory is the cleaned form of \<^verbatim>\<open><base>/logs/<logName>/<YYYYMM>/<DD>/\<close>
  (\<^verbatim>\<open>filepath.Join\<close> cleans it: no slash at the end, none doubled); for a base path
  that is clean already and a log name that is one plain element it is that
  string itself, without the slash at the end.  The file name is
  \<^verbatim>\<open><levelName>-<HH>.log\<close> for slot 0 and \<^verbatim>\<open><levelName>-<HH>-<slot>.log\<close> for a slot
  above 0; the level names are output, debug, info, warn, error, action; and for
  a year of at most four digits the fields have 4, 2, 2 and 2 decimal digits.
\<close>

theorem createFile_path:
  assumes "unat lv < 6"
  shows "(\<exists>r w' rest. createFile bp ln lv sl t w = Ok (r, w') \<and> trace w' = trace w @ rest \<and>
            rest \<in> create_events (logDir_of bp ln t)
                     (logDir_of bp ln t @ ''/'' @ logFile_of (levelName ! unat lv) sl t)) \<and>
         logDir_of bp ln t =
           filepath_Clean (bp @ ''/logs/'' @ ln @ ''/'' @ sprintf_0d 4 (year t) @
                           sprintf_0d 2 (int (month t)) @ ''/'' @ sprintf_0d 2 (int (day t)) @ ''/'') \<and>
         (filepath_Clean bp = bp \<and> bp \<noteq> ''.'' \<and> bp \<noteq> ''/'' \<and> plain ln \<longrightarrow>
            logDir_of bp ln t =
              bp @ ''/logs/'' @ ln @ ''/'' @ sprintf_0d 4 (year t) @ sprintf_0d 2 (int (month t)) @
              ''/'' @ sprintf_0d 2 (int (day t))) \<and>
         (sl = 0 \<longrightarrow>
            logFile_of (levelName ! unat lv) sl t =
              levelName ! unat lv @ ''-'' @ sprintf_0d 2 (int (hour t)) @ ''.log'') \<and>
         (0 < sint sl \<longrightarrow>
            logFile_of (levelName ! unat lv) sl t =
              levelName ! unat lv @ ''-'' @ sprintf_0d 2 (int (hour t)) @ ''-'' @
              dec (nat (sint sl)) @ ''.log'') \<and>
         map (\<lambda>l. levelName ! unat l)
           [levelDefault, LevelDebug, LevelInfo, LevelWarn, LevelError, LevelAction] =
           [''output'', ''debug'', ''info'', ''warn'', ''error'', ''action''] \<and>
         (0 \<le> year t \<and> year t < 10000 \<and> month t < 100 \<and> day t < 100 \<and> hour t < 100 \<longrightarrow>
            length (sprintf_0d 4 (year t)) = 4 \<and> length (sprintf_0d 2 (int (month t))) = 2 \<and>
            length (sprintf_0d 2 (int (day t))) = 2 \<and> length (sprintf_0d 2 (int (hour t))) = 2 \<and>
            set (sprintf_0d 4 (year t) @ sprintf_0d 2 (int (month t)) @ sprintf_0d 2 (int (day t)) @
                 sprintf_0d 2 (int (hour t))) \<subseteq> set ''0123456789'')"
proof -
  from createFile_result [OF assms, of bp ln sl t w]
  have 1: "\<exists>r w' rest. createFile bp ln lv sl t w = Ok (r, w') \<and> trace w' = trace w @ rest \<and>
            rest \<in> create_events (logDir_of bp ln t)
                     (logDir_of bp ln t @ ''/'' @ logFile_of (levelName ! unat lv) sl t)"
    unfolding logPath_of_eq [OF assms] by blast
  have 2: "logDir_of bp ln t =
           filepath_Clean (bp @ ''/logs/'' @ ln @ ''/'' @ sprintf_0d 4 (year t) @
                           sprintf_0d 2 (int (month t)) @ ''/'' @ sprintf_0d 2 (int (day t)) @ ''/'')"
    by (simp add: logDir_of_Clean date_dir_def)
  have 3: "logDir_of bp ln t =
              bp @ ''/logs/'' @ ln @ ''/'' @ sprintf_0d 4 (year t) @ sprintf_0d 2 (int (month t)) @
              ''/'' @ sprintf_0d 2 (int (day t))"
    if "filepath_Clean bp = bp \<and> bp \<noteq> ''.'' \<and> bp \<noteq> ''/'' \<and> plain ln"
    using that logDir_of_literal [of bp ln t] by (simp add: date_dir_def)
  have 4: "sl = 0 \<longrightarrow>
            logFile_of (levelName ! unat lv) sl t =
              levelName ! unat lv @ ''-'' @ sprintf_0d 2 (int (hour t)) @ ''.log''"
    by (simp add: logFile_of_def)
  have 5: "0 < sint sl \<longrightarrow>
            logFile_of (levelName ! unat lv) sl t =
              levelName ! unat lv @ ''-'' @ sprintf_0d 2 (int (hour t)) @ ''-'' @
              dec (nat (sint sl)) @ ''.log''"
    by (simp add: logFile_of_def sprintf_d_def)
  have 6: "map (\<lambda>l. levelName ! unat l)
           [levelDefault, LevelDebug, LevelInfo, LevelWarn, LevelError, LevelAction] =
           [''output'', ''debug'', ''info'', ''warn'', ''error'', ''action'']"
    by (simp add: levelName_def Level_defs)
  have 7: "length (sprintf_0d 4 (year t)) = 4 \<and> length (sprintf_0d 2 (int (month t))) = 2 \<and>
            length (sprintf_0d 2 (int (day t))) = 2 \<and> length (sprintf_0d 2 (int (hour t))) = 2 \<and>
            set (sprintf_0d 4 (year t) @ sprintf_0d 2 (int (month t)) @ sprintf_0d 2 (int (day t)) @
                 sprintf_0d 2 (int (hour t))) \<subseteq> set ''0123456789''"
    if h: "0 \<le> year t \<and> year t < 10000 \<and> month t < 100 \<and> day t < 100 \<and> hour t < 100"
  proof -
    have a: "length (sprintf_0d 4 (year t)) = 4"
      using h by (intro sprintf_0d_length) simp_all
    have b: "length (sprintf_0d 2 (int n)) = 2" if "n < 100" for n
      using that by (intro sprintf_0d_length) simp_all
    have c: "set (sprintf_0d 4 (year t)) \<subseteq> set ''0123456789''"
      using h by (intro sprintf_0d_digits) simp
    have d: "set (sprintf_0d 2 (int n)) \<subseteq> set ''0123456789''" for n
      by (intro sprintf_0d_digits) simp
    have "set (sprintf_0d 4 (year t) @ sprintf_0d 2 (int (month t)) @ sprintf_0d 2 (int (day t)) @
                 sprintf_0d 2 (int (hour t))) \<subseteq> set ''0123456789''"
      unfolding set_append using c d [of "month t"] d [of "day t"] d [of "hour t"] by blast
    with a b [of "month t"] b [of "day t"] b [of "hour t"] h show ?thesis by blast
  qed
  from 1 2 3 4 5 6 7 show ?thesis by blast
qed

lemma ex_logFile:
  "logFile_of (levelName ! unat LevelInfo) 0 ex_time = ''info-07.log''"
  "logFile_of (levelName ! unat LevelInfo) 12 ex_time = ''info-07-12.log''"
  by (simp_all add: logFile_of_def levelName_def LevelInfo_def ex_time_def fmt_defs)

theorem createFile_path_witness:
  "unat LevelInfo < 6 \<and> filepath_Clean ''/data'' = ''/data'' \<and> plain ''app'' \<and>
   (0 :: int) < sint (12 :: 64 word) \<and>
   logDir_of ''/data'' ''app'' ex_time = ''/data/logs/app/202610/30'' \<and>
   logFile_of (levelName ! unat LevelInfo) 0 ex_time = ''info-07.log'' \<and>
   logFile_of (levelName ! unat LevelInfo) 12 ex_time = ''info-07-12.log'' \<and>
   logPath_of ''/data'' ''app'' LevelInfo 12 ex_time = ''/data/logs/app/202610/30/info-07-12.log'' \<and>
   length (sprintf_0d 4 (year ex_time)) = 4 \<and>
   (\<exists>r w' rest. createFile ''/data'' ''app'' LevelInfo 12 ex_time ex_fault_world = Ok (r, w') \<and>
      trace w' = trace ex_fault_world @ rest \<and>
      rest \<in> create_events ''/data/logs/app/202610/30'' ''/data/logs/app/202610/30/info-07-12.log'')"
proof -
  have h: "unat LevelInfo < 6" by (simp add: LevelInfo_def)
  have c: "filepath_Clean ''/data'' = ''/data''" by (simp add: path_defs)
  have p: "plain ''app''" by (simp add: plain_def)
  have s: "(0 :: int) < sint (12 :: 64 word)" by simp
  have t: "0 \<le> year ex_time \<and> year ex_time < 10000 \<and> month ex_time < 100 \<and> day ex_time < 100 \<and>
      hour ex_time < 100" by (simp add: ex_time_def)
  note th = createFile_path [OF h, of "''/data''" "''app''" 12 ex_time ex_fault_world]
  from th t have l: "length (sprintf_0d 4 (year ex_time)) = 4" by blast
  from th have e: "\<exists>r w' rest. createFile ''/data'' ''app'' LevelInfo 12 ex_time ex_fault_world = Ok (r, w') \<and>
      trace w' = trace ex_fault_world @ rest \<and>
      rest \<in> create_events (logDir_of ''/data'' ''app'' ex_time)
               (logDir_of ''/data'' ''app'' ex_time @ ''/'' @ logFile_of (levelName ! unat LevelInfo) 12 ex_time)"
    by blast
  have lp: "logPath_of ''/data'' ''app'' LevelInfo 12 ex_time = ''/data/logs/app/202610/30/info-07-12.log''"
    by (simp add: logPath_of_eq [OF h] ex_logDir ex_logFile)
  from h c p s l e lp show ?thesis by (simp add: ex_logDir ex_logFile)
qed

end
